theory Spec2Isabelle
  imports Complex_Main "HOL-Library.Signed_Division" "HOL-Library.Monad_Syntax"
begin

section \<open>Scalar types\<close>

text \<open>
  The program's \<^verbatim>\<open>size_t\<close> values are natural numbers below \<open>2 ^ 64\<close> (an LP64 target);
  arithmetic on them wraps around, which is written out with \<open>mod\<close>.
  A \<^verbatim>\<open>double\<close> of the state is modelled by the real number it holds, so the state holds
  finite doubles only. The cell index and the expiry test of the neighbor cache round their
  operations as the section on double arithmetic says; elsewhere sums and products are
  exact.
\<close>

type_synonym size_t = nat
type_synonym double = real

definition SIZE_MAX :: size_t where
  "SIZE_MAX = 2 ^ 64 - 1"

definition size_add :: "size_t \<Rightarrow> size_t \<Rightarrow> size_t" where
  "size_add x y = (x + y) mod 2 ^ 64"

definition size_sub :: "size_t \<Rightarrow> size_t \<Rightarrow> size_t" where
  "size_sub x y = (x + 2 ^ 64 - y mod 2 ^ 64) mod 2 ^ 64"

definition size_mul :: "size_t \<Rightarrow> size_t \<Rightarrow> size_t" where
  "size_mul x y = (x * y) mod 2 ^ 64"

text \<open>The number of spatial dimensions, \<^verbatim>\<open>BMM_NDIM\<close> (section 6 of the specification).\<close>

definition BMM_NDIM :: nat where
  "BMM_NDIM = 2"

section \<open>Simulation state (dem.h, as dem.c uses it)\<close>

datatype bmm_dem_role = BMM_DEM_ROLE_FREE | BMM_DEM_ROLE_FIXED | BMM_DEM_ROLE_DRIVEN

datatype bmm_dem_caching = BMM_DEM_CACHING_NONE | BMM_DEM_CACHING_NEIGH

datatype bmm_dem_famb = BMM_DEM_FAMB_CREEPING | BMM_DEM_FAMB_QUAD | BMM_DEM_FAMB_CORR

datatype bmm_dem_fnorm = BMM_DEM_FNORM_NONE | BMM_DEM_FNORM_DASHPOT | BMM_DEM_FNORM_VISCOEL

datatype bmm_dem_ftang = BMM_DEM_FTANG_NONE | BMM_DEM_FTANG_HW | BMM_DEM_FTANG_CS

datatype bmm_dem_mode =
  BMM_DEM_MODE_CREATE | BMM_DEM_MODE_SEDIMENT | BMM_DEM_MODE_LINK | BMM_DEM_MODE_FAULT
  | BMM_DEM_MODE_SEPARATE | BMM_DEM_MODE_CRUNCH | BMM_DEM_MODE_MEASURE

text \<open>
  Arrays are total functions on indices; only the indices below the array's capacity
  (\<^verbatim>\<open>BMM_NDIM\<close>, \<^verbatim>\<open>BMM_MPART\<close>, \<^verbatim>\<open>BMM_NLINK\<close>) stand for memory of the program.
\<close>

record bmm_dem_opts =
  opts_box_x :: "nat \<Rightarrow> double"
  opts_box_per :: "nat \<Rightarrow> bool"
  opts_caching :: bmm_dem_caching
  opts_famb :: bmm_dem_famb
  opts_fnorm :: bmm_dem_fnorm
  opts_ftang :: bmm_dem_ftang
  opts_part_y :: double
  opts_dashpot_gamma :: double
  opts_hw_gamma :: double
  opts_hw_mu :: double
  opts_cache_ncell :: "nat \<Rightarrow> size_t"
  opts_cache_rcutoff :: double
  opts_script_mode :: "nat \<Rightarrow> bmm_dem_mode"
  opts_sediment_kcohes :: "nat \<Rightarrow> double"

record bmm_dem_part =
  part_n :: size_t
  part_lnew :: size_t
  part_l :: "nat \<Rightarrow> size_t"
  part_role :: "nat \<Rightarrow> bmm_dem_role"
  part_r :: "nat \<Rightarrow> double"
  part_m :: "nat \<Rightarrow> double"
  part_jred :: "nat \<Rightarrow> double"
  part_x :: "nat \<Rightarrow> nat \<Rightarrow> double"
  part_v :: "nat \<Rightarrow> nat \<Rightarrow> double"
  part_a :: "nat \<Rightarrow> nat \<Rightarrow> double"
  part_phi :: "nat \<Rightarrow> double"
  part_omega :: "nat \<Rightarrow> double"
  part_alpha :: "nat \<Rightarrow> double"
  part_f :: "nat \<Rightarrow> nat \<Rightarrow> double"
  part_tau :: "nat \<Rightarrow> double"

text \<open>The bonds stored on one particle: \<^verbatim>\<open>dem->link.part[ipart]\<close>.\<close>

record bmm_dem_link_part =
  link_n :: size_t
  link_i :: "nat \<Rightarrow> size_t"
  link_rrest :: "nat \<Rightarrow> double"
  link_phirest :: "nat \<Rightarrow> nat \<Rightarrow> double"
  link_rlim :: "nat \<Rightarrow> double"
  link_philim :: "nat \<Rightarrow> double"

text \<open>
  The index lists \<^verbatim>\<open>cache.part[icell]\<close> and \<^verbatim>\<open>cache.neigh[ipart]\<close> are a count \<^verbatim>\<open>n\<close>
  and an array \<^verbatim>\<open>i\<close> of which the program only reads the first \<^verbatim>\<open>n\<close> entries: they are
  lists, the count being the length.
\<close>

record bmm_dem_cache =
  cache_stale :: bool
  cache_j :: "nat \<Rightarrow> double"
  cache_x :: "nat \<Rightarrow> nat \<Rightarrow> double"
  cache_ijcell :: "nat \<Rightarrow> nat \<Rightarrow> size_t"
  cache_icell :: "nat \<Rightarrow> size_t"
  cache_part :: "nat \<Rightarrow> size_t list"
  cache_neigh :: "nat \<Rightarrow> size_t list"

record bmm_dem =
  dem_opts :: bmm_dem_opts
  dem_part :: bmm_dem_part
  dem_link :: "nat \<Rightarrow> bmm_dem_link_part"
  dem_cache :: bmm_dem_cache
  dem_script_i :: size_t

section \<open>Double arithmetic\<close>

text \<open>
  The arithmetic of \<^verbatim>\<open>double\<close> in the neighbor cache: IEEE 754 binary64 with the default
  rounding, to the nearest double and to the even significand at a tie, each operation
  rounded by itself (\<^verbatim>\<open>FLT_EVAL_METHOD\<close> 0). \<open>round_even\<close> is the nearest integer with ties to
  even; \<open>fp_exponent x\<close> is the exponent of the last bit of a 53-bit significand that holds
  \<open>x\<close>, and no less than \<open>-1074\<close>, the last bit of the subnormal doubles; \<open>fp_round x\<close> is the
  double nearest to \<open>x\<close> when the exponent has no upper bound.
\<close>

definition round_even :: "real \<Rightarrow> int" where
  "round_even x =
     (let n = \<lfloor>x\<rfloor> in
      if x - of_int n < 1 / 2 then n
      else if x - of_int n > 1 / 2 then n + 1
      else if even n then n else n + 1)"

definition fp_exponent :: "real \<Rightarrow> int" where
  "fp_exponent x = max (\<lfloor>log 2 \<bar>x\<bar>\<rfloor> - 52) (- 1074)"

definition fp_round :: "real \<Rightarrow> real" where
  "fp_round x =
     (if x = 0 then 0
      else of_int (round_even (x / 2 powi fp_exponent x)) * 2 powi fp_exponent x)"

text \<open>
  The value of an operation of dem.c whose exact result is \<open>x\<close>: the rounded result, and an
  infinity when that is beyond \<^verbatim>\<open>DBL_MAX\<close>. A division by zero gives an infinity or NaN; the
  zero divisors of dem.c are converted from \<^verbatim>\<open>size_t\<close>, so they are positive zeros. An
  infinity less a finite number is that infinity; \<open>fp_ge s t\<close> is \<^verbatim>\<open>s >= t\<close> for a finite \<open>s\<close>,
  false when \<open>t\<close> is NaN.
\<close>

datatype fpval = Fin real | PInf | NInf | NaN

definition DBL_MAX :: real where
  "DBL_MAX = (2 ^ 53 - 1) * 2 ^ 971"

definition fp_value :: "real \<Rightarrow> fpval" where
  "fp_value x =
     (if fp_round x > DBL_MAX then PInf
      else if fp_round x < - DBL_MAX then NInf
      else Fin (fp_round x))"

definition fp_div :: "real \<Rightarrow> real \<Rightarrow> fpval" where
  "fp_div x y =
     (if y = 0 then (if x = 0 then NaN else if x > 0 then PInf else NInf)
      else fp_value (x / y))"

definition fp_sub :: "fpval \<Rightarrow> real \<Rightarrow> fpval" where
  "fp_sub a y = (case a of Fin x \<Rightarrow> fp_value (x - y) | PInf \<Rightarrow> PInf | NInf \<Rightarrow> NInf | NaN \<Rightarrow> NaN)"

definition fp_ge :: "real \<Rightarrow> fpval \<Rightarrow> bool" where
  "fp_ge s t = (case t of Fin y \<Rightarrow> s \<ge> y | PInf \<Rightarrow> False | NInf \<Rightarrow> True | NaN \<Rightarrow> False)"

section \<open>Floating-point and vector helpers\<close>

text \<open>
  Modelled from the spec: the helpers of fp.h (not under src/) that dem.c calls. Section 4.1
  describes \<open>wrap(x, a, b)\<close> as the \<open>y\<close> in \<open>[a, b)\<close> with \<open>y \<equiv> x (mod b - a)\<close> and
  \<open>swrap(x, p)\<close> as the symmetric wrap into \<open>[-p/2, p/2)\<close>; \<^verbatim>\<open>bmm_fp_sq\<close> is the square and
  \<^verbatim>\<open>bmm_fp_lerp(x, x0, x1, y0, y1)\<close> the linear interpolation that takes \<open>[x0, x1]\<close> onto
  \<open>[y0, y1]\<close>, which is how \<^verbatim>\<open>bmm_dem_cache_ijcell\<close> calls it. The interpolation is computed
  in doubles: \<open>(x - x0) * (y1 - y0) / (x1 - x0) + y0\<close> with each operation rounded, the result
  taken with an unbounded exponent (the caller clamps it); \<open>x1 = x0\<close> is outside the model.
\<close>

definition bmm_fp_sq :: "double \<Rightarrow> double" where
  "bmm_fp_sq x = x * x"

definition bmm_fp_wrap :: "double \<Rightarrow> double \<Rightarrow> double \<Rightarrow> double" where
  "bmm_fp_wrap x a b = x - (b - a) * of_int \<lfloor>(x - a) / (b - a)\<rfloor>"

definition bmm_fp_swrap :: "double \<Rightarrow> double \<Rightarrow> double" where
  "bmm_fp_swrap x p = bmm_fp_wrap x (- p / 2) (p / 2)"

definition bmm_fp_lerp :: "double \<Rightarrow> double \<Rightarrow> double \<Rightarrow> double \<Rightarrow> double \<Rightarrow> double" where
  "bmm_fp_lerp x x0 x1 y0 y1 =
     fp_round (fp_round (fp_round (fp_round (x - x0) * fp_round (y1 - y0)) / fp_round (x1 - x0)) + y0)"

text \<open>
  Modelled from the spec: the 2D vector primitives of geom2d.h (not under src/), section 4.1:
  \<open>diff\<close>, \<open>cpdiff\<close> (the periodic shortest difference, from the first point to the second,
  as \<open>dir(x_j - x_i)\<close> of section 4.3 reads it), \<open>norm2\<close>, \<open>dot\<close>, \<open>scale\<close>, \<open>addto\<close>,
  \<open>rperp\<close> (right perpendicular) and \<open>cpdist2\<close>. A vector is its two components.
\<close>

definition bmm_geom2d_diff :: "(nat \<Rightarrow> double) \<Rightarrow> (nat \<Rightarrow> double) \<Rightarrow> (nat \<Rightarrow> double)" where
  "bmm_geom2d_diff x y = (\<lambda>idim. x idim - y idim)"

definition bmm_geom2d_cpdiff ::
  "(nat \<Rightarrow> double) \<Rightarrow> (nat \<Rightarrow> double) \<Rightarrow> (nat \<Rightarrow> double) \<Rightarrow> (nat \<Rightarrow> bool) \<Rightarrow> (nat \<Rightarrow> double)" where
  "bmm_geom2d_cpdiff x y xper per =
     (\<lambda>idim. if per idim then bmm_fp_swrap (y idim - x idim) (xper idim) else y idim - x idim)"

definition bmm_geom2d_dot :: "(nat \<Rightarrow> double) \<Rightarrow> (nat \<Rightarrow> double) \<Rightarrow> double" where
  "bmm_geom2d_dot x y = x 0 * y 0 + x 1 * y 1"

definition bmm_geom2d_norm2 :: "(nat \<Rightarrow> double) \<Rightarrow> double" where
  "bmm_geom2d_norm2 x = bmm_geom2d_dot x x"

definition bmm_geom2d_scale :: "(nat \<Rightarrow> double) \<Rightarrow> double \<Rightarrow> (nat \<Rightarrow> double)" where
  "bmm_geom2d_scale x a = (\<lambda>idim. x idim * a)"

definition bmm_geom2d_addto :: "(nat \<Rightarrow> double) \<Rightarrow> (nat \<Rightarrow> double) \<Rightarrow> (nat \<Rightarrow> double)" where
  "bmm_geom2d_addto y x = (\<lambda>idim. if idim < BMM_NDIM then y idim + x idim else y idim)"

definition bmm_geom2d_rperp :: "(nat \<Rightarrow> double) \<Rightarrow> (nat \<Rightarrow> double)" where
  "bmm_geom2d_rperp x = (\<lambda>idim. if idim = 0 then x 1 else - x 0)"

definition bmm_geom2d_cpdist2 ::
  "(nat \<Rightarrow> double) \<Rightarrow> (nat \<Rightarrow> double) \<Rightarrow> (nat \<Rightarrow> double) \<Rightarrow> (nat \<Rightarrow> bool) \<Rightarrow> double" where
  "bmm_geom2d_cpdist2 x y xper per = bmm_geom2d_norm2 (bmm_geom2d_cpdiff x y xper per)"

text \<open>The C library's \<^verbatim>\<open>copysign\<close> on the reals (there is no negative zero).\<close>

definition copysign :: "double \<Rightarrow> double \<Rightarrow> double" where
  "copysign x y = (if y < 0 then - \<bar>x\<bar> else \<bar>x\<bar>)"

section \<open>Index packing (common_uint.h)\<close>

text \<open>
  The unsigned instantiations (\<^verbatim>\<open>unsigned char\<close>, \<^verbatim>\<open>size_t\<close>) of type \<^verbatim>\<open>A\<close>: values are natural
  numbers below \<open>2 ^ w\<close> for the width \<open>w\<close> of the type, and arithmetic wraps around.
  \<^verbatim>\<open>bmm_quot\<close> has undefined behaviour for a zero divisor, which is the result \<open>None\<close>.
\<close>

definition bmm_quot_uint :: "nat \<Rightarrow> nat \<Rightarrow> (nat \<times> nat) option" where
  "bmm_quot_uint x y = (if y = 0 then None else Some (x div y, x mod y))"

text \<open>
  \<^verbatim>\<open>bmm_hcd(pij, i, ndim, nper)\<close>: the loop state is \<^verbatim>\<open>dm.quot\<close> and the array \<^verbatim>\<open>pij\<close>.
\<close>

definition hcd_step ::
  "nat \<Rightarrow> (nat \<Rightarrow> nat) \<Rightarrow> nat \<Rightarrow> (nat \<times> (nat \<Rightarrow> nat)) option \<Rightarrow> (nat \<times> (nat \<Rightarrow> nat)) option" where
  "hcd_step ndim nper idim st =
     (case st of
        None \<Rightarrow> None
      | Some (quot, pij) \<Rightarrow>
          (case bmm_quot_uint quot (nper (ndim - 1 - idim)) of
             None \<Rightarrow> None
           | Some (quot', rem) \<Rightarrow> Some (quot', pij(ndim - 1 - idim := rem))))"

definition bmm_hcd :: "(nat \<Rightarrow> nat) \<Rightarrow> nat \<Rightarrow> nat \<Rightarrow> (nat \<Rightarrow> nat) \<Rightarrow> (nat \<Rightarrow> nat) option" where
  "bmm_hcd pij i ndim nper =
     map_option snd (fold (hcd_step ndim nper) [0 ..< ndim] (Some (i, pij)))"

text \<open>\<^verbatim>\<open>bmm_unhcd(ij, ndim, nper)\<close> for a type of width \<open>w\<close>.\<close>

definition bmm_unhcd :: "nat \<Rightarrow> (nat \<Rightarrow> nat) \<Rightarrow> nat \<Rightarrow> (nat \<Rightarrow> nat) \<Rightarrow> nat" where
  "bmm_unhcd w ij ndim nper =
     fold (\<lambda>idim i. ((i * nper idim) mod 2 ^ w + ij idim) mod 2 ^ w) [0 ..< ndim] 0"

text \<open>The index of an index vector in unbounded arithmetic (row-major, mixed radix).\<close>

primrec unhcd_value :: "(nat \<Rightarrow> nat) \<Rightarrow> (nat \<Rightarrow> nat) \<Rightarrow> nat \<Rightarrow> nat" where
  "unhcd_value ij nper 0 = 0"
| "unhcd_value ij nper (Suc k) = unhcd_value ij nper k * nper k + ij k"

section \<open>Modular wrap (common_sint.h, common_uint.h)\<close>

subsection \<open>Signed instantiations\<close>

text \<open>
  A signed type \<^verbatim>\<open>A\<close> of width \<open>w\<close> holds the integers from \<open>- 2 ^ (w - 1)\<close> to
  \<open>2 ^ (w - 1) - 1\<close>. C computes on operands of type \<^verbatim>\<open>A\<close> in the promoted type, \<^verbatim>\<open>int\<close> (32
  bits) for the narrower types, and a signed result outside that type is undefined
  behaviour: the result \<open>None\<close>. A value stored into a variable of type \<^verbatim>\<open>A\<close> or returned as
  one has to be a value of \<^verbatim>\<open>A\<close>; the model takes anything else for a failure too, so that
  \<open>Some\<close> means that nothing overflowed. \<^verbatim>\<open>long long\<close> has 64 bits.
\<close>

definition sint_ok :: "nat \<Rightarrow> int \<Rightarrow> bool" where
  "sint_ok w v \<longleftrightarrow> - (2 ^ (w - 1)) \<le> v \<and> v < 2 ^ (w - 1)"

definition sint_chk :: "nat \<Rightarrow> int \<Rightarrow> int option" where
  "sint_chk w v = (if sint_ok w v then Some v else None)"

definition promoted :: "nat \<Rightarrow> nat" where
  "promoted w = max w 32"

text \<open>An arithmetic result on operands of type \<^verbatim>\<open>A\<close>, and such a result stored as an \<^verbatim>\<open>A\<close>.\<close>

definition arith :: "nat \<Rightarrow> int \<Rightarrow> int option" where
  "arith w v = sint_chk (promoted w) v"

definition arith_A :: "nat \<Rightarrow> int \<Rightarrow> int option" where
  "arith_A w v = do { v' \<leftarrow> arith w v; sint_chk w v' }"

text \<open>
  Modelled from the spec: \<^verbatim>\<open>bmm_sgn\<close> (its header is not under src/), the sign of its argument
  as -1, 0 or 1, which tests.c compares with -1.
\<close>

definition bmm_sgn :: "int \<Rightarrow> int" where
  "bmm_sgn x = (if x < 0 then - 1 else if x > 0 then 1 else 0)"

text \<open>\<^verbatim>\<open>bmm_quot\<close> of common_sint.h; C's \<^verbatim>\<open>/\<close> and \<^verbatim>\<open>%\<close> truncate (\<open>sdiv\<close>, \<open>smod\<close>).\<close>

definition bmm_quot_sint :: "nat \<Rightarrow> int \<Rightarrow> int \<Rightarrow> (int \<times> int) option" where
  "bmm_quot_sint w x y =
     (if y = 0 then None
      else do {
        q \<leftarrow> arith_A w (x sdiv y);
        r \<leftarrow> arith_A w (x smod y);
        let s = (if r \<ge> 0 then 0 else if y < 0 then - 1 else 1);
        quot \<leftarrow> arith_A w (q - s);
        sy \<leftarrow> arith w (s * y);
        rem \<leftarrow> arith_A w (r + sy);
        Some (quot, rem)
      })"

text \<open>The two loops of \<^verbatim>\<open>bmm_wrap\<close>, on \<^verbatim>\<open>long long\<close>: \<^verbatim>\<open>do y += c; while (y < a);\<close> and its mirror.\<close>

partial_function (option) wrap_up :: "int \<Rightarrow> int \<Rightarrow> int \<Rightarrow> int option" where
  "wrap_up y a c =
     do { y' \<leftarrow> sint_chk 64 (y + c); if y' < a then wrap_up y' a c else Some y' }"

partial_function (option) wrap_down :: "int \<Rightarrow> int \<Rightarrow> int \<Rightarrow> int option" where
  "wrap_down y b c =
     do { y' \<leftarrow> sint_chk 64 (y - c); if y' \<ge> b then wrap_down y' b c else Some y' }"

definition bmm_wrap_sint :: "nat \<Rightarrow> int \<Rightarrow> int \<Rightarrow> int \<Rightarrow> int option" where
  "bmm_wrap_sint w x a b =
     (if \<not> b > a then None
      else if bmm_sgn a = bmm_sgn b then do {
        c \<leftarrow> arith_A w (b - a);
        xmc \<leftarrow> map_option snd (bmm_quot_sint w x c);
        amc \<leftarrow> map_option snd (bmm_quot_sint w a c);
        t \<leftarrow> (if xmc \<ge> amc then arith w (xmc - amc)
              else do { u \<leftarrow> arith w (amc - xmc); arith w (c - u) });
        arith_A w (t + a)
      }
      else do {
        c \<leftarrow> arith w (b - a);
        y \<leftarrow> (if x < a then wrap_up x a c
              else if x \<ge> b then wrap_down x b c
              else Some x);
        sint_chk w y
      })"

subsection \<open>Unsigned instantiations\<close>

text \<open>
  An unsigned type of width \<open>w\<close> holds the naturals below \<open>2 ^ w\<close>; sums and differences
  wrap around. The precondition \<^verbatim>\<open>b > a\<close> is asserted.
\<close>

definition uint_add :: "nat \<Rightarrow> nat \<Rightarrow> nat \<Rightarrow> nat" where
  "uint_add w x y = (x + y) mod 2 ^ w"

definition uint_sub :: "nat \<Rightarrow> nat \<Rightarrow> nat \<Rightarrow> nat" where
  "uint_sub w x y = (x + 2 ^ w - y mod 2 ^ w) mod 2 ^ w"

definition bmm_wrap_uint :: "nat \<Rightarrow> nat \<Rightarrow> nat \<Rightarrow> nat \<Rightarrow> nat option" where
  "bmm_wrap_uint w x a b =
     (if \<not> b > a then None
      else
        let c = uint_sub w b a;
            r = x mod c;
            s = a mod c
        in Some (uint_add w (if r \<ge> s then uint_sub w r s else uint_sub w c (uint_sub w s r)) a))"

section \<open>Neighbor cells\<close>

datatype bmm_neigh_mask = BMM_NEIGH_MASK_FULL | BMM_NEIGH_MASK_UPPERH

text \<open>
  Modelled from the spec: \<^verbatim>\<open>bmm_neigh_ncpij\<close> and \<^verbatim>\<open>bmm_neigh_icpij\<close> (neigh.h is not under src/),
  the number of cells in the masked Moore neighborhood of a cell and the flattened index of
  its \<open>ineigh\<close>-th cell. Section 4.4: the upper-half mask is the cell itself plus the cells
  whose offset vector is lexicographically greater than zero, 5 of the 9 Moore cells in 2D;
  a periodic dimension wraps modulo \<open>ncell[d]\<close>, and in a non-periodic dimension the cells
  outside \<open>[0, ncell[d])\<close> are skipped. The offsets are taken in lexicographic order, as
  tests.c lists the cells. (tests.c wraps a periodic dimension past its two boundary cells,
  which section 4.4 does not say; no state evaluated below has a periodic dimension.)
\<close>

fun moore_offsets :: "nat \<Rightarrow> int list list" where
  "moore_offsets 0 = [[]]"
| "moore_offsets (Suc ndim) =
     concat (map (\<lambda>off. map ((#) off) (moore_offsets ndim)) [- 1, 0, 1])"

definition upper_half :: "int list \<Rightarrow> bool" where
  "upper_half offs = (case dropWhile (\<lambda>off. off = 0) offs of [] \<Rightarrow> True | off # _ \<Rightarrow> 0 < off)"

definition mask_offsets :: "bmm_neigh_mask \<Rightarrow> nat \<Rightarrow> int list list" where
  "mask_offsets msk ndim =
     (case msk of
        BMM_NEIGH_MASK_FULL \<Rightarrow> moore_offsets ndim
      | BMM_NEIGH_MASK_UPPERH \<Rightarrow> filter upper_half (moore_offsets ndim))"

definition shift_cell ::
  "(nat \<Rightarrow> size_t) \<Rightarrow> nat \<Rightarrow> (nat \<Rightarrow> size_t) \<Rightarrow> (nat \<Rightarrow> bool) \<Rightarrow> int list \<Rightarrow> (nat \<Rightarrow> size_t) option" where
  "shift_cell ij ndim nper per offs =
     (if list_all (\<lambda>idim. per idim \<or>
            (0 \<le> int (ij idim) + offs ! idim \<and> int (ij idim) + offs ! idim < int (nper idim)))
          [0 ..< ndim]
      then Some (\<lambda>idim. if idim < ndim
                  then nat ((int (ij idim) + offs ! idim) mod int (nper idim)) else ij idim)
      else None)"

definition neigh_cpij ::
  "(nat \<Rightarrow> size_t) \<Rightarrow> nat \<Rightarrow> (nat \<Rightarrow> size_t) \<Rightarrow> (nat \<Rightarrow> bool) \<Rightarrow> bmm_neigh_mask \<Rightarrow> (nat \<Rightarrow> size_t) list" where
  "neigh_cpij ij ndim nper per msk =
     List.map_filter (shift_cell ij ndim nper per) (mask_offsets msk ndim)"

definition bmm_neigh_ncpij ::
  "(nat \<Rightarrow> size_t) \<Rightarrow> nat \<Rightarrow> (nat \<Rightarrow> size_t) \<Rightarrow> (nat \<Rightarrow> bool) \<Rightarrow> bmm_neigh_mask \<Rightarrow> size_t" where
  "bmm_neigh_ncpij ij ndim nper per msk = length (neigh_cpij ij ndim nper per msk)"

definition bmm_neigh_icpij ::
  "(nat \<Rightarrow> size_t) \<Rightarrow> nat \<Rightarrow> nat \<Rightarrow> (nat \<Rightarrow> size_t) \<Rightarrow> (nat \<Rightarrow> bool) \<Rightarrow> bmm_neigh_mask \<Rightarrow> size_t" where
  "bmm_neigh_icpij ij ineigh ndim nper per msk =
     bmm_unhcd 64 (neigh_cpij ij ndim nper per msk ! ineigh) ndim nper"

section \<open>Particle store (dem.c)\<close>

text \<open>
  Modelled from the spec: \<^verbatim>\<open>bmm_geom_ballprmoi\<close> (geom.h is not under src/). Section 4.2 gives
  its value at the only argument the program passes: \<open>geom_ball_prmoi(2) = 1/2\<close>.
\<close>

definition bmm_geom_ballprmoi :: "nat \<Rightarrow> double" where
  "bmm_geom_ballprmoi ndim = 1 / 2"

text \<open>The loop \<^verbatim>\<open>for (idim = 0; idim < BMM_NDIM; ++idim) a[idim] = c;\<close>\<close>

definition fill_ndim :: "(nat \<Rightarrow> 'a) \<Rightarrow> 'a \<Rightarrow> (nat \<Rightarrow> 'a)" where
  "fill_ndim a c = fold (\<lambda>idim a. a(idim := c)) [0 ..< BMM_NDIM] a"

text \<open>The loop \<^verbatim>\<open>for (k = 0; k < n; ++k) dst[k] = src[k];\<close>\<close>

definition copy_upto :: "nat \<Rightarrow> (nat \<Rightarrow> 'a) \<Rightarrow> (nat \<Rightarrow> 'a) \<Rightarrow> (nat \<Rightarrow> 'a)" where
  "copy_upto n dst src = fold (\<lambda>k a. a(k := src k)) [0 ..< n] dst"

definition bmm_dem_addpart :: "nat \<Rightarrow> bmm_dem \<Rightarrow> size_t \<times> bmm_dem" where
  "bmm_dem_addpart MPART dem =
     (let ipart = part_n (dem_part dem); p = dem_part dem in
      if ipart \<ge> MPART then (SIZE_MAX, dem)
      else
        (ipart,
         dem\<lparr>dem_part := p\<lparr>
               part_n := size_add (part_n p) 1,
               part_l := (part_l p)(ipart := part_lnew p),
               part_lnew := size_add (part_lnew p) 1,
               part_role := (part_role p)(ipart := BMM_DEM_ROLE_FREE),
               part_r := (part_r p)(ipart := 1),
               part_m := (part_m p)(ipart := 1),
               part_jred := (part_jred p)(ipart := bmm_geom_ballprmoi BMM_NDIM),
               part_x := (part_x p)(ipart := fill_ndim (part_x p ipart) 0),
               part_v := (part_v p)(ipart := fill_ndim (part_v p ipart) 0),
               part_a := (part_a p)(ipart := fill_ndim (part_a p ipart) 0),
               part_phi := (part_phi p)(ipart := 0),
               part_omega := (part_omega p)(ipart := 0),
               part_alpha := (part_alpha p)(ipart := 0),
               part_f := (part_f p)(ipart := fill_ndim (part_f p ipart) 0),
               part_tau := (part_tau p)(ipart := 0)\<rparr>,
             dem_cache := (dem_cache dem)\<lparr>cache_stale := True\<rparr>\<rparr>))"

definition bmm_dem_reassign :: "bmm_dem \<Rightarrow> nat \<Rightarrow> nat \<Rightarrow> bmm_dem" where
  "bmm_dem_reassign dem ipart jpart =
     (let p = dem_part dem; li = dem_link dem ipart; lj = dem_link dem jpart in
      dem\<lparr>dem_part := p\<lparr>
            part_role := (part_role p)(ipart := part_role p jpart),
            part_l := (part_l p)(ipart := part_l p jpart),
            part_r := (part_r p)(ipart := part_r p jpart),
            part_m := (part_m p)(ipart := part_m p jpart),
            part_jred := (part_jred p)(ipart := part_jred p jpart),
            part_x := (part_x p)(ipart := copy_upto BMM_NDIM (part_x p ipart) (part_x p jpart)),
            part_v := (part_v p)(ipart := copy_upto BMM_NDIM (part_v p ipart) (part_v p jpart)),
            part_a := (part_a p)(ipart := copy_upto BMM_NDIM (part_a p ipart) (part_a p jpart)),
            part_phi := (part_phi p)(ipart := part_phi p jpart),
            part_omega := (part_omega p)(ipart := part_omega p jpart),
            part_alpha := (part_alpha p)(ipart := part_alpha p jpart),
            part_f := (part_f p)(ipart := copy_upto BMM_NDIM (part_f p ipart) (part_f p jpart)),
            part_tau := (part_tau p)(ipart := part_tau p jpart)\<rparr>,
          dem_link := (dem_link dem)(ipart := li\<lparr>
            link_n := link_n lj,
            link_i := copy_upto (link_n lj) (link_i li) (link_i lj),
            link_rrest := copy_upto (link_n lj) (link_rrest li) (link_rrest lj),
            link_phirest :=
              fold (\<lambda>ilink a. a(ilink := copy_upto 2 (a ilink) (link_phirest lj ilink)))
                [0 ..< link_n lj] (link_phirest li),
            link_rlim := copy_upto (link_n lj) (link_rlim li) (link_rlim lj),
            link_philim := copy_upto (link_n lj) (link_philim li) (link_philim lj)\<rparr>)\<rparr>)"

definition bmm_dem_rempart :: "bmm_dem \<Rightarrow> nat \<Rightarrow> bmm_dem" where
  "bmm_dem_rempart dem ipart =
     (let dem1 = dem\<lparr>dem_part := (dem_part dem)\<lparr>part_n := size_sub (part_n (dem_part dem)) 1\<rparr>\<rparr>;
          jpart = part_n (dem_part dem1);
          dem2 = (if jpart \<noteq> ipart then bmm_dem_reassign dem1 ipart jpart else dem1)
      in dem2\<lparr>dem_cache := (dem_cache dem2)\<lparr>cache_stale := True\<rparr>\<rparr>)"

text \<open>
  The default options of \<^verbatim>\<open>bmm_dem_opts_def\<close> (the fields of the model) and the initial state
  of \<^verbatim>\<open>bmm_dem_def\<close>: everything zero, which for an enumeration is its first value.
\<close>

definition bmm_dem_opts_def :: bmm_dem_opts where
  "bmm_dem_opts_def =
     \<lparr>opts_box_x = (\<lambda>_. 1), opts_box_per = (\<lambda>_. False),
      opts_caching = BMM_DEM_CACHING_NEIGH, opts_famb = BMM_DEM_FAMB_CREEPING,
      opts_fnorm = BMM_DEM_FNORM_DASHPOT, opts_ftang = BMM_DEM_FTANG_HW,
      opts_part_y = 1, opts_dashpot_gamma = 1, opts_hw_gamma = 1, opts_hw_mu = 1,
      opts_cache_ncell = (\<lambda>_. 5), opts_cache_rcutoff = 1,
      opts_script_mode = (\<lambda>_. BMM_DEM_MODE_CREATE), opts_sediment_kcohes = (\<lambda>_. 0)\<rparr>"

definition bmm_dem_def :: "bmm_dem_opts \<Rightarrow> bmm_dem" where
  "bmm_dem_def opts =
     \<lparr>dem_opts = opts,
      dem_part = \<lparr>part_n = 0, part_lnew = 0, part_l = (\<lambda>_. 0),
        part_role = (\<lambda>_. BMM_DEM_ROLE_FREE), part_r = (\<lambda>_. 0), part_m = (\<lambda>_. 0),
        part_jred = (\<lambda>_. 0), part_x = (\<lambda>_ _. 0), part_v = (\<lambda>_ _. 0), part_a = (\<lambda>_ _. 0),
        part_phi = (\<lambda>_. 0), part_omega = (\<lambda>_. 0), part_alpha = (\<lambda>_. 0),
        part_f = (\<lambda>_ _. 0), part_tau = (\<lambda>_. 0)\<rparr>,
      dem_link = (\<lambda>_. \<lparr>link_n = 0, link_i = (\<lambda>_. 0), link_rrest = (\<lambda>_. 0),
        link_phirest = (\<lambda>_ _. 0), link_rlim = (\<lambda>_. 0), link_philim = (\<lambda>_. 0)\<rparr>),
      dem_cache = \<lparr>cache_stale = False, cache_j = (\<lambda>_. 0), cache_x = (\<lambda>_ _. 0),
        cache_ijcell = (\<lambda>_ _. 0), cache_icell = (\<lambda>_. 0), cache_part = (\<lambda>_. []),
        cache_neigh = (\<lambda>_. [])\<rparr>,
      dem_script_i = 0\<rparr>"

subsection \<open>Sequences of additions and removals\<close>

datatype bmm_dem_op = OP_ADD | OP_REMOVE nat

fun bmm_dem_apply :: "nat \<Rightarrow> bmm_dem \<Rightarrow> bmm_dem_op \<Rightarrow> bmm_dem" where
  "bmm_dem_apply MPART dem OP_ADD = snd (bmm_dem_addpart MPART dem)"
| "bmm_dem_apply MPART dem (OP_REMOVE ipart) = bmm_dem_rempart dem ipart"

fun bmm_dem_run :: "nat \<Rightarrow> bmm_dem \<Rightarrow> bmm_dem_op list \<Rightarrow> bmm_dem" where
  "bmm_dem_run MPART dem [] = dem"
| "bmm_dem_run MPART dem (op # ops) = bmm_dem_run MPART (bmm_dem_apply MPART dem op) ops"

text \<open>Every removal of the sequence is applied to an index below the particle count.\<close>

fun ops_valid :: "nat \<Rightarrow> bmm_dem \<Rightarrow> bmm_dem_op list \<Rightarrow> bool" where
  "ops_valid MPART dem [] = True"
| "ops_valid MPART dem (OP_ADD # ops) = ops_valid MPART (bmm_dem_apply MPART dem OP_ADD) ops"
| "ops_valid MPART dem (OP_REMOVE ipart # ops) =
     (ipart < part_n (dem_part dem) \<and>
      ops_valid MPART (bmm_dem_apply MPART dem (OP_REMOVE ipart)) ops)"

definition labels :: "bmm_dem \<Rightarrow> size_t list" where
  "labels dem = map (part_l (dem_part dem)) [0 ..< part_n (dem_part dem)]"

definition labels_fresh :: "nat \<Rightarrow> bmm_dem \<Rightarrow> bool" where
  "labels_fresh MPART dem \<longleftrightarrow>
     part_n (dem_part dem) \<le> MPART \<and>
     (\<forall>ipart < part_n (dem_part dem). part_l (dem_part dem) ipart < part_lnew (dem_part dem)) \<and>
     distinct (labels dem)"

definition count_adds :: "bmm_dem_op list \<Rightarrow> nat" where
  "count_adds ops = length (filter (\<lambda>op. op = OP_ADD) ops)"

text \<open>
  A sequence that makes the label counter wrap around: one particle is added and kept, then
  a second one is added and removed \<open>2 ^ 64 - 1\<close> times, then a second one is added.
\<close>

definition ops_wrap :: "bmm_dem_op list" where
  "ops_wrap = OP_ADD # concat (replicate (2 ^ 64 - 1) [OP_ADD, OP_REMOVE 1]) @ [OP_ADD]"

section \<open>Cohesive bonds (dem.c, \<^verbatim>\<open>bmm_dem_force_link\<close>)\<close>

definition bmm_dem_force_link :: "bmm_dem \<Rightarrow> nat \<Rightarrow> nat \<Rightarrow> nat \<Rightarrow> bmm_dem" where
  "bmm_dem_force_link dem ipart jpart ilink = dem"

text \<open>The third pass of \<^verbatim>\<open>bmm_dem_force\<close>: every stored bond of every particle.\<close>

definition bmm_dem_force_links :: "bmm_dem \<Rightarrow> bmm_dem" where
  "bmm_dem_force_links dem =
     fold (\<lambda>ipart dem.
         fold (\<lambda>ilink dem.
             bmm_dem_force_link dem ipart (link_i (dem_link dem ipart) ilink) ilink)
           [0 ..< link_n (dem_link dem ipart)] dem)
       [0 ..< part_n (dem_part dem)] dem"

section \<open>Neighbor cache (dem.c)\<close>

definition bmm_dem_cache_j :: "bmm_dem \<Rightarrow> nat \<Rightarrow> bmm_dem" where
  "bmm_dem_cache_j dem ipart =
     dem\<lparr>dem_cache := (dem_cache dem)\<lparr>cache_j := (cache_j (dem_cache dem))(ipart :=
       part_jred (dem_part dem) ipart * part_m (dem_part dem) ipart *
       bmm_fp_sq (part_r (dem_part dem) ipart))\<rparr>\<rparr>"

definition bmm_dem_cache_x :: "bmm_dem \<Rightarrow> nat \<Rightarrow> bmm_dem" where
  "bmm_dem_cache_x dem ipart =
     dem\<lparr>dem_cache := (dem_cache dem)\<lparr>cache_x := (cache_x (dem_cache dem))(ipart :=
       copy_upto BMM_NDIM (cache_x (dem_cache dem) ipart) (part_x (dem_part dem) ipart))\<rparr>\<rparr>"

text \<open>
  The cell index of one dimension, the value \<^verbatim>\<open>bmm_dem_cache_ijcell\<close> stores into
  \<^verbatim>\<open>cache.ijcell[ipart][idim]\<close>. \<open>b\<close> is the conversion \<^verbatim>\<open>(double) i\<close>, which rounds, and \<open>t\<close> the
  double that \<^verbatim>\<open>bmm_fp_lerp\<close> returns. The conversion \<^verbatim>\<open>(size_t) t\<close> truncates, which is the
  floor as \<open>t\<close> is at least 1 there, and the value is in range as \<open>t < b\<close>.
\<close>

definition ijcell_of :: "bmm_dem \<Rightarrow> nat \<Rightarrow> nat \<Rightarrow> size_t" where
  "ijcell_of dem ipart idim =
     (let i = size_sub (opts_cache_ncell (dem_opts dem) idim) 1;
          a = 1;
          b = fp_round (real i);
          t = bmm_fp_lerp (cache_x (dem_cache dem) ipart idim)
                0 (opts_box_x (dem_opts dem) idim) a b
      in if t < a then 0 else if t \<ge> b then i else nat \<lfloor>t\<rfloor>)"

definition bmm_dem_cache_ijcell :: "bmm_dem \<Rightarrow> nat \<Rightarrow> bmm_dem" where
  "bmm_dem_cache_ijcell dem ipart =
     fold (\<lambda>idim dem.
         dem\<lparr>dem_cache := (dem_cache dem)\<lparr>cache_ijcell := (cache_ijcell (dem_cache dem))(ipart :=
           (cache_ijcell (dem_cache dem) ipart)(idim := ijcell_of dem ipart idim))\<rparr>\<rparr>)
       [0 ..< BMM_NDIM] dem"

text \<open>
  \<^verbatim>\<open>bmm_dem_cache_expired\<close>. \<open>cache_expired_dx\<close> is the local \<^verbatim>\<open>dx\<close>: the product
  \<^verbatim>\<open>(ncell[idim] - 2) * 2\<close> is computed in \<^verbatim>\<open>size_t\<close>, converted to a double and divides the
  box. \<open>cache_expired_at\<close> is the test of the inner loop for one particle: the difference of
  the positions is rounded and goes to \<^verbatim>\<open>bmm_fp_swrap\<close>, whose absolute value is compared with
  the rounded \<^verbatim>\<open>dx - r[ipart]\<close>. The specification describes \<^verbatim>\<open>bmm_fp_swrap\<close> on numbers only,
  so a difference that overflows has the result \<open>None\<close>.
\<close>

definition cache_expired_dx :: "bmm_dem \<Rightarrow> nat \<Rightarrow> fpval" where
  "cache_expired_dx dem idim =
     fp_div (opts_box_x (dem_opts dem) idim)
       (fp_round (real (size_mul (size_sub (opts_cache_ncell (dem_opts dem) idim) 2) 2)))"

definition cache_expired_at :: "bmm_dem \<Rightarrow> nat \<Rightarrow> nat \<Rightarrow> bool option" where
  "cache_expired_at dem idim ipart =
     (case fp_value (part_x (dem_part dem) ipart idim - cache_x (dem_cache dem) ipart idim) of
        Fin d \<Rightarrow>
          Some (fp_ge \<bar>bmm_fp_swrap d (opts_box_x (dem_opts dem) idim)\<bar>
                  (fp_sub (cache_expired_dx dem idim) (part_r (dem_part dem) ipart)))
      | _ \<Rightarrow> None)"

text \<open>
  A loop that returns true at the first element that meets a test, and false when there is
  none; it has no result when a test has none.
\<close>

fun loop_ex :: "('a \<Rightarrow> bool option) \<Rightarrow> 'a list \<Rightarrow> bool option" where
  "loop_ex test [] = Some False"
| "loop_ex test (x # xs) =
     (case test x of None \<Rightarrow> None | Some True \<Rightarrow> Some True | Some False \<Rightarrow> loop_ex test xs)"

definition bmm_dem_cache_expired :: "bmm_dem \<Rightarrow> bool option" where
  "bmm_dem_cache_expired dem =
     loop_ex (\<lambda>idim. loop_ex (cache_expired_at dem idim) [0 ..< part_n (dem_part dem)])
       [0 ..< BMM_NDIM]"

section \<open>Cache rebuild (dem.c)\<close>

text \<open>
  A loop whose body can fail: \<^verbatim>\<open>for (...) if (!body(...)) return false;\<close>. The result is
  the success flag and the state reached.
\<close>

fun loop_while :: "('a \<Rightarrow> 's \<Rightarrow> bool \<times> 's) \<Rightarrow> 'a list \<Rightarrow> 's \<Rightarrow> bool \<times> 's" where
  "loop_while body [] s = (True, s)"
| "loop_while body (x # xs) s =
     (case body x s of (True, s') \<Rightarrow> loop_while body xs s' | (False, s') \<Rightarrow> (False, s'))"

definition bmm_dem_cache_icell :: "bmm_dem \<Rightarrow> nat \<Rightarrow> bmm_dem" where
  "bmm_dem_cache_icell dem ipart =
     dem\<lparr>dem_cache := (dem_cache dem)\<lparr>cache_icell := (cache_icell (dem_cache dem))(ipart :=
       bmm_unhcd 64 (cache_ijcell (dem_cache dem) ipart) BMM_NDIM
         (opts_cache_ncell (dem_opts dem)))\<rparr>\<rparr>"

text \<open>
  \<^verbatim>\<open>cache.part\<close> is an array of \<^verbatim>\<open>BMM_POW(BMM_NCELL, BMM_NDIM)\<close> lists in dem.h; here every cell
  index has a list, which is the same as long as the cell indices stay below that bound.
\<close>

definition bmm_dem_cache_clrparts :: "bmm_dem \<Rightarrow> bmm_dem" where
  "bmm_dem_cache_clrparts dem = dem\<lparr>dem_cache := (dem_cache dem)\<lparr>cache_part := (\<lambda>icell. [])\<rparr>\<rparr>"

text \<open>\<^verbatim>\<open>NGROUP\<close> is the capacity \<^verbatim>\<open>BMM_NGROUP\<close> of a cell's list (conf.h is not under src/).\<close>

definition bmm_dem_cache_addpart :: "nat \<Rightarrow> bmm_dem \<Rightarrow> nat \<Rightarrow> bool \<times> bmm_dem" where
  "bmm_dem_cache_addpart NGROUP dem ipart =
     (let icell = cache_icell (dem_cache dem) ipart in
      if length (cache_part (dem_cache dem) icell) \<ge> NGROUP then (False, dem)
      else (True, dem\<lparr>dem_cache := (dem_cache dem)\<lparr>cache_part := (cache_part (dem_cache dem))(icell :=
              cache_part (dem_cache dem) icell @ [ipart])\<rparr>\<rparr>))"

definition bmm_dem_cache_eligible :: "bmm_dem \<Rightarrow> nat \<Rightarrow> nat \<Rightarrow> bool" where
  "bmm_dem_cache_eligible dem ipart jpart =
     (if cache_icell (dem_cache dem) ipart = cache_icell (dem_cache dem) jpart \<and> jpart \<le> ipart
      then False
      else if bmm_geom2d_cpdist2 (cache_x (dem_cache dem) ipart) (cache_x (dem_cache dem) jpart)
                (opts_box_x (dem_opts dem)) (opts_box_per (dem_opts dem))
              > bmm_fp_sq (opts_cache_rcutoff (dem_opts dem))
      then False
      else True)"

definition bmm_dem_cache_clrneighs :: "bmm_dem \<Rightarrow> bmm_dem" where
  "bmm_dem_cache_clrneighs dem =
     fold (\<lambda>ipart dem.
         dem\<lparr>dem_cache := (dem_cache dem)\<lparr>cache_neigh := (cache_neigh (dem_cache dem))(ipart := [])\<rparr>\<rparr>)
       [0 ..< part_n (dem_part dem)] dem"

text \<open>
  The capacity of a neighbor list, \<^verbatim>\<open>BMM_NGROUP * (BMM_POW(3, BMM_NDIM) / 2)\<close> in dem.h, and the
  covariant block of \<^verbatim>\<open>bmm_dem_cache_addfrom\<close> for one candidate \<^verbatim>\<open>jpart\<close>.
\<close>

definition neigh_capacity :: "nat \<Rightarrow> nat" where
  "neigh_capacity NGROUP = NGROUP * (3 ^ BMM_NDIM div 2)"

definition addfrom_candidate :: "nat \<Rightarrow> nat \<Rightarrow> nat \<Rightarrow> bmm_dem \<Rightarrow> bool \<times> bmm_dem" where
  "addfrom_candidate NGROUP ipart jpart dem =
     (if bmm_dem_cache_eligible dem ipart jpart then
        if length (cache_neigh (dem_cache dem) ipart) \<ge> neigh_capacity NGROUP then (False, dem)
        else (True, dem\<lparr>dem_cache := (dem_cache dem)\<lparr>cache_neigh := (cache_neigh (dem_cache dem))(ipart :=
                cache_neigh (dem_cache dem) ipart @ [jpart])\<rparr>\<rparr>)
      else (True, dem))"

definition bmm_dem_cache_addfrom :: "nat \<Rightarrow> bmm_dem \<Rightarrow> nat \<Rightarrow> bmm_neigh_mask \<Rightarrow> bool \<times> bmm_dem" where
  "bmm_dem_cache_addfrom NGROUP dem ipart msk =
     (let nneigh = bmm_neigh_ncpij (cache_ijcell (dem_cache dem) ipart) BMM_NDIM
            (opts_cache_ncell (dem_opts dem)) (opts_box_per (dem_opts dem)) msk
      in loop_while (\<lambda>ineigh dem.
             let icell = bmm_neigh_icpij (cache_ijcell (dem_cache dem) ipart) ineigh BMM_NDIM
                   (opts_cache_ncell (dem_opts dem)) (opts_box_per (dem_opts dem)) msk
             in loop_while (addfrom_candidate NGROUP ipart) (cache_part (dem_cache dem) icell) dem)
           [0 ..< nneigh] dem)"

definition bmm_dem_cache_build :: "nat \<Rightarrow> bmm_dem \<Rightarrow> bool \<times> bmm_dem" where
  "bmm_dem_cache_build NGROUP dem =
     (let dem = fold (\<lambda>ipart dem. bmm_dem_cache_j dem ipart) [0 ..< part_n (dem_part dem)] dem;
          dem = fold (\<lambda>ipart dem. bmm_dem_cache_x dem ipart) [0 ..< part_n (dem_part dem)] dem;
          dem = fold (\<lambda>ipart dem. bmm_dem_cache_ijcell dem ipart) [0 ..< part_n (dem_part dem)] dem;
          dem = fold (\<lambda>ipart dem. bmm_dem_cache_icell dem ipart) [0 ..< part_n (dem_part dem)] dem;
          dem = bmm_dem_cache_clrparts dem
      in case loop_while (\<lambda>ipart dem. bmm_dem_cache_addpart NGROUP dem ipart)
                [0 ..< part_n (dem_part dem)] dem of
           (False, dem) \<Rightarrow> (False, dem)
         | (True, dem) \<Rightarrow>
             (let dem = bmm_dem_cache_clrneighs dem
              in case loop_while (\<lambda>ipart dem. bmm_dem_cache_addfrom NGROUP dem ipart
                          BMM_NEIGH_MASK_UPPERH) [0 ..< part_n (dem_part dem)] dem of
                   (False, dem) \<Rightarrow> (False, dem)
                 | (True, dem) \<Rightarrow> (True, dem\<lparr>dem_cache := (dem_cache dem)\<lparr>cache_stale := False\<rparr>\<rparr>)))"

text \<open>The flattened cells of the upper-half neighborhood of a particle's cell, in loop order.\<close>

definition neigh_cells :: "bmm_dem \<Rightarrow> nat \<Rightarrow> size_t list" where
  "neigh_cells dem ipart =
     map (\<lambda>ineigh. bmm_neigh_icpij (cache_ijcell (dem_cache dem) ipart) ineigh BMM_NDIM
            (opts_cache_ncell (dem_opts dem)) (opts_box_per (dem_opts dem)) BMM_NEIGH_MASK_UPPERH)
       [0 ..< bmm_neigh_ncpij (cache_ijcell (dem_cache dem) ipart) BMM_NDIM
            (opts_cache_ncell (dem_opts dem)) (opts_box_per (dem_opts dem)) BMM_NEIGH_MASK_UPPERH]"

text \<open>The state with the cell lists replaced.\<close>

definition set_part :: "bmm_dem \<Rightarrow> (nat \<Rightarrow> size_t list) \<Rightarrow> bmm_dem" where
  "set_part dem part = dem\<lparr>dem_cache := (dem_cache dem)\<lparr>cache_part := part\<rparr>\<rparr>"

text \<open>The state with the neighbor lists replaced.\<close>

definition set_neigh :: "bmm_dem \<Rightarrow> (nat \<Rightarrow> size_t list) \<Rightarrow> bmm_dem" where
  "set_neigh dem neigh = dem\<lparr>dem_cache := (dem_cache dem)\<lparr>cache_neigh := neigh\<rparr>\<rparr>"

text \<open>What the rebuild puts into the neighbor list of a particle.\<close>

definition neigh_found :: "bmm_dem \<Rightarrow> nat \<Rightarrow> size_t list" where
  "neigh_found dem ipart =
     filter (bmm_dem_cache_eligible dem ipart)
       (concat (map (cache_part (dem_cache dem)) (neigh_cells dem ipart)))"

text \<open>The state in which the cells are filled: after the first five steps of the rebuild.\<close>

definition build_prepare :: "bmm_dem \<Rightarrow> bmm_dem" where
  "build_prepare dem =
     (let dem = fold (\<lambda>ipart dem. bmm_dem_cache_j dem ipart) [0 ..< part_n (dem_part dem)] dem;
          dem = fold (\<lambda>ipart dem. bmm_dem_cache_x dem ipart) [0 ..< part_n (dem_part dem)] dem;
          dem = fold (\<lambda>ipart dem. bmm_dem_cache_ijcell dem ipart) [0 ..< part_n (dem_part dem)] dem;
          dem = fold (\<lambda>ipart dem. bmm_dem_cache_icell dem ipart) [0 ..< part_n (dem_part dem)] dem
      in bmm_dem_cache_clrparts dem)"

section \<open>Force accumulator (dem.c)\<close>

text \<open>\<^verbatim>\<open>bmm_geom2d_addto(dem->part.f[ipart], fdiff)\<close> and \<^verbatim>\<open>dem->part.tau[ipart] += t\<close>.\<close>

definition addto_f :: "bmm_dem \<Rightarrow> nat \<Rightarrow> (nat \<Rightarrow> double) \<Rightarrow> bmm_dem" where
  "addto_f dem ipart fdiff =
     dem\<lparr>dem_part := (dem_part dem)\<lparr>part_f := (part_f (dem_part dem))(ipart :=
       bmm_geom2d_addto (part_f (dem_part dem) ipart) fdiff)\<rparr>\<rparr>"

definition addto_tau :: "bmm_dem \<Rightarrow> nat \<Rightarrow> double \<Rightarrow> bmm_dem" where
  "addto_tau dem ipart t =
     dem\<lparr>dem_part := (dem_part dem)\<lparr>part_tau := (part_tau (dem_part dem))(ipart :=
       part_tau (dem_part dem) ipart + t)\<rparr>\<rparr>"

text \<open>
  The local variables of \<^verbatim>\<open>bmm_dem_force_pair\<close>, in the order of the source. They are read
  from positions, velocities, radii and options, which the function does not write.
\<close>

definition pair_xdiff :: "bmm_dem \<Rightarrow> nat \<Rightarrow> nat \<Rightarrow> (nat \<Rightarrow> double)" where
  "pair_xdiff dem ipart jpart =
     bmm_geom2d_cpdiff (part_x (dem_part dem) ipart) (part_x (dem_part dem) jpart)
       (opts_box_x (dem_opts dem)) (opts_box_per (dem_opts dem))"

definition pair_d2 :: "bmm_dem \<Rightarrow> nat \<Rightarrow> nat \<Rightarrow> double" where
  "pair_d2 dem ipart jpart = bmm_geom2d_norm2 (pair_xdiff dem ipart jpart)"

definition pair_r :: "bmm_dem \<Rightarrow> nat \<Rightarrow> nat \<Rightarrow> double" where
  "pair_r dem ipart jpart = part_r (dem_part dem) ipart + part_r (dem_part dem) jpart"

definition pair_d :: "bmm_dem \<Rightarrow> nat \<Rightarrow> nat \<Rightarrow> double" where
  "pair_d dem ipart jpart = sqrt (pair_d2 dem ipart jpart)"

definition pair_xnorm :: "bmm_dem \<Rightarrow> nat \<Rightarrow> nat \<Rightarrow> (nat \<Rightarrow> double)" where
  "pair_xnorm dem ipart jpart =
     bmm_geom2d_scale (pair_xdiff dem ipart jpart) (1 / pair_d dem ipart jpart)"

definition pair_xtang :: "bmm_dem \<Rightarrow> nat \<Rightarrow> nat \<Rightarrow> (nat \<Rightarrow> double)" where
  "pair_xtang dem ipart jpart = bmm_geom2d_rperp (pair_xnorm dem ipart jpart)"

definition pair_vdiff :: "bmm_dem \<Rightarrow> nat \<Rightarrow> nat \<Rightarrow> (nat \<Rightarrow> double)" where
  "pair_vdiff dem ipart jpart =
     bmm_geom2d_diff (part_v (dem_part dem) ipart) (part_v (dem_part dem) jpart)"

definition pair_xi :: "bmm_dem \<Rightarrow> nat \<Rightarrow> nat \<Rightarrow> double" where
  "pair_xi dem ipart jpart = pair_r dem ipart jpart - pair_d dem ipart jpart"

definition pair_dotxi :: "bmm_dem \<Rightarrow> nat \<Rightarrow> nat \<Rightarrow> double" where
  "pair_dotxi dem ipart jpart =
     bmm_geom2d_dot (pair_vdiff dem ipart jpart) (pair_xnorm dem ipart jpart)"

definition pair_vtang :: "bmm_dem \<Rightarrow> nat \<Rightarrow> nat \<Rightarrow> double" where
  "pair_vtang dem ipart jpart =
     bmm_geom2d_dot (pair_vdiff dem ipart jpart) (pair_xtang dem ipart jpart) +
     part_r (dem_part dem) ipart * part_omega (dem_part dem) ipart +
     part_r (dem_part dem) jpart * part_omega (dem_part dem) jpart"

definition pair_fn :: "bmm_dem \<Rightarrow> nat \<Rightarrow> nat \<Rightarrow> double" where
  "pair_fn dem ipart jpart =
     (case opts_fnorm (dem_opts dem) of
        BMM_DEM_FNORM_DASHPOT \<Rightarrow>
          max 0 (opts_part_y (dem_opts dem) * pair_xi dem ipart jpart +
                 opts_dashpot_gamma (dem_opts dem) * pair_dotxi dem ipart jpart)
      | _ \<Rightarrow> 0)"

definition pair_ft :: "bmm_dem \<Rightarrow> nat \<Rightarrow> nat \<Rightarrow> double" where
  "pair_ft dem ipart jpart =
     (case opts_ftang (dem_opts dem) of
        BMM_DEM_FTANG_HW \<Rightarrow>
          - copysign (min (opts_hw_gamma (dem_opts dem) * \<bar>pair_vtang dem ipart jpart\<bar>)
                          (opts_hw_mu (dem_opts dem) * pair_fn dem ipart jpart))
              (pair_vtang dem ipart jpart)
      | _ \<Rightarrow> 0)"

definition bmm_dem_force_pair :: "bmm_dem \<Rightarrow> nat \<Rightarrow> nat \<Rightarrow> bmm_dem" where
  "bmm_dem_force_pair dem ipart jpart =
     (let d2 = pair_d2 dem ipart jpart;
          r2 = bmm_fp_sq (pair_r dem ipart jpart)
      in if d2 > r2 \<or> d2 = 0 then dem
      else
        let xnorm = pair_xnorm dem ipart jpart;
            xtang = pair_xtang dem ipart jpart;
            fn = pair_fn dem ipart jpart;
            ft = pair_ft dem ipart jpart;
            ri = part_r (dem_part dem) ipart;
            rj = part_r (dem_part dem) jpart;
            fdiff = bmm_geom2d_scale xnorm (- fn);
            dem = addto_f dem ipart fdiff;
            fdiff2 = bmm_geom2d_scale fdiff (- 1);
            dem = addto_f dem jpart fdiff2;
            fdiff = bmm_geom2d_scale xtang ft;
            dem = addto_f dem ipart fdiff;
            dem = addto_tau dem ipart (ft * ri);
            fdiff2 = bmm_geom2d_scale fdiff (- 1);
            dem = addto_f dem jpart fdiff2;
            dem = addto_tau dem jpart (ft * rj)
        in dem)"

text \<open>The loop \<^verbatim>\<open>for (idim = 0; idim < 2; ++idim) dem->part.f[ipart][idim] *= c;\<close>\<close>

definition scale_f :: "bmm_dem \<Rightarrow> nat \<Rightarrow> double \<Rightarrow> bmm_dem" where
  "scale_f dem ipart c =
     fold (\<lambda>idim dem.
         dem\<lparr>dem_part := (dem_part dem)\<lparr>part_f := (part_f (dem_part dem))(ipart :=
           (part_f (dem_part dem) ipart)(idim := part_f (dem_part dem) ipart idim * c))\<rparr>\<rparr>)
       [0 ..< BMM_NDIM] dem"

definition bmm_dem_force_ambient :: "bmm_dem \<Rightarrow> nat \<Rightarrow> bmm_dem" where
  "bmm_dem_force_ambient dem ipart =
     (case opts_famb (dem_opts dem) of
        BMM_DEM_FAMB_CREEPING \<Rightarrow> scale_f dem ipart (1 - 1 / 100)
      | BMM_DEM_FAMB_QUAD \<Rightarrow> scale_f dem ipart 1
      | BMM_DEM_FAMB_CORR \<Rightarrow> scale_f dem ipart 1)"

definition bmm_dem_force_external :: "bmm_dem \<Rightarrow> nat \<Rightarrow> bmm_dem" where
  "bmm_dem_force_external dem ipart =
     (case opts_script_mode (dem_opts dem) (dem_script_i dem) of
        BMM_DEM_MODE_SEDIMENT \<Rightarrow>
          dem\<lparr>dem_part := (dem_part dem)\<lparr>part_f := (part_f (dem_part dem))(ipart :=
            (part_f (dem_part dem) ipart)(1 := part_f (dem_part dem) ipart 1 +
              opts_sediment_kcohes (dem_opts dem) (dem_script_i dem) *
              (opts_box_x (dem_opts dem) 1 / 2 - part_x (dem_part dem) ipart 1)))\<rparr>\<rparr>
      | _ \<Rightarrow> dem)"

text \<open>The passes of \<^verbatim>\<open>bmm_dem_force\<close>, in the order of the source.\<close>

definition force_clear_part :: "bmm_dem \<Rightarrow> nat \<Rightarrow> bmm_dem" where
  "force_clear_part dem ipart =
     dem\<lparr>dem_part := (dem_part dem)\<lparr>
       part_f := (part_f (dem_part dem))(ipart := fill_ndim (part_f (dem_part dem) ipart) 0),
       part_tau := (part_tau (dem_part dem))(ipart := 0)\<rparr>\<rparr>"

definition bmm_dem_force_clear :: "bmm_dem \<Rightarrow> bmm_dem" where
  "bmm_dem_force_clear dem =
     fold (\<lambda>ipart dem. force_clear_part dem ipart) [0 ..< part_n (dem_part dem)] dem"

definition bmm_dem_force_ambients :: "bmm_dem \<Rightarrow> bmm_dem" where
  "bmm_dem_force_ambients dem =
     fold (\<lambda>ipart dem. bmm_dem_force_ambient dem ipart) [0 ..< part_n (dem_part dem)] dem"

definition bmm_dem_force_pairs :: "bmm_dem \<Rightarrow> bmm_dem" where
  "bmm_dem_force_pairs dem =
     (case opts_caching (dem_opts dem) of
        BMM_DEM_CACHING_NONE \<Rightarrow>
          fold (\<lambda>ipart dem.
              fold (\<lambda>jpart dem. bmm_dem_force_pair dem ipart jpart)
                [ipart + 1 ..< part_n (dem_part dem)] dem)
            [0 ..< part_n (dem_part dem)] dem
      | BMM_DEM_CACHING_NEIGH \<Rightarrow>
          fold (\<lambda>ipart dem.
              fold (\<lambda>jpart dem. bmm_dem_force_pair dem ipart jpart)
                (cache_neigh (dem_cache dem) ipart) dem)
            [0 ..< part_n (dem_part dem)] dem)"

definition bmm_dem_force_externals :: "bmm_dem \<Rightarrow> bmm_dem" where
  "bmm_dem_force_externals dem =
     fold (\<lambda>ipart dem. bmm_dem_force_external dem ipart) [0 ..< part_n (dem_part dem)] dem"

definition bmm_dem_force :: "bmm_dem \<Rightarrow> bmm_dem" where
  "bmm_dem_force dem =
     bmm_dem_force_externals (bmm_dem_force_links (bmm_dem_force_pairs
       (bmm_dem_force_ambients (bmm_dem_force_clear dem))))"

text \<open>The state with the ambient law replaced.\<close>

definition set_famb :: "bmm_dem_famb \<Rightarrow> bmm_dem \<Rightarrow> bmm_dem" where
  "set_famb famb dem = dem\<lparr>dem_opts := (dem_opts dem)\<lparr>opts_famb := famb\<rparr>\<rparr>"

section \<open>Concrete states\<close>

text \<open>
  A particle of radius 1/8 that has moved by 1/8 along the first axis since the cache was
  built, in a unit box of four cells per axis: its drift equals the safe radius
  \<open>1 / (2 * (4 - 2)) - 1/8\<close>.
\<close>

definition dem_drift :: bmm_dem where
  "dem_drift =
     (let dem = snd (bmm_dem_addpart 1024
            (bmm_dem_def (bmm_dem_opts_def\<lparr>opts_cache_ncell := (\<lambda>_. 4)\<rparr>)))
      in dem\<lparr>dem_part := (dem_part dem)\<lparr>
           part_r := (part_r (dem_part dem))(0 := 1 / 8),
           part_x := (part_x (dem_part dem))(0 := (part_x (dem_part dem) 0)(0 := 1 / 8))\<rparr>\<rparr>)"

text \<open>
  A particle of radius 1/16 in the default box (five cells per axis) that has moved to the
  double \<open>0x1.aaaaaaaaaaaaap-4\<close> on the first axis since the cache was built: below the exact
  \<open>1/6 - 1/16\<close>, and equal to it as the doubles compute it.
\<close>

definition dem_rounded :: bmm_dem where
  "dem_rounded =
     (let dem = snd (bmm_dem_addpart 1024 (bmm_dem_def bmm_dem_opts_def))
      in dem\<lparr>dem_part := (dem_part dem)\<lparr>
           part_r := (part_r (dem_part dem))(0 := 1 / 16),
           part_x := (part_x (dem_part dem))(0 := (part_x (dem_part dem) 0)
             (0 := 3752999689475413 / 2 ^ 55))\<rparr>\<rparr>)"




text \<open>
  The extents of tests.c, \<^verbatim>\<open>nper[] = {6, 5}\<close>, and extents whose product \<open>4 * 2 ^ 63\<close> does
  not fit a \<^verbatim>\<open>size_t\<close>.
\<close>

definition nper_test :: "nat \<Rightarrow> nat" where
  "nper_test = (\<lambda>_. 0)(0 := 6, 1 := 5)"

definition nper_wide :: "nat \<Rightarrow> nat" where
  "nper_wide = (\<lambda>_. 0)(0 := 4, 1 := 2 ^ 63)"

text \<open>
  Two particles in the default box (unit box, no periodic dimension, 5 cells per axis, cutoff
  1): in \<open>dem_far\<close> particle 0 at (0, 0) and particle 1 at (3/4, 0); in \<open>dem_near\<close> particle 0
  at (1/2, 0) and particle 1 at (0, 0).
\<close>

definition dem_far :: bmm_dem where
  "dem_far =
     (let dem = snd (bmm_dem_addpart 1024 (snd (bmm_dem_addpart 1024
            (bmm_dem_def bmm_dem_opts_def))))
      in dem\<lparr>dem_part := (dem_part dem)\<lparr>
           part_x := (part_x (dem_part dem))(1 := (part_x (dem_part dem) 1)(0 := 3 / 4))\<rparr>\<rparr>)"

definition dem_near :: bmm_dem where
  "dem_near =
     (let dem = snd (bmm_dem_addpart 1024 (snd (bmm_dem_addpart 1024
            (bmm_dem_def bmm_dem_opts_def))))
      in dem\<lparr>dem_part := (dem_part dem)\<lparr>
           part_x := (part_x (dem_part dem))(0 := (part_x (dem_part dem) 0)(0 := 1 / 2))\<rparr>\<rparr>)"

text \<open>The states that the rebuild makes of them, with room for 8 particles in a cell.\<close>

definition dem_near_built :: bmm_dem where
  "dem_near_built = snd (bmm_dem_cache_build 8 dem_near)"

definition dem_far_built :: bmm_dem where
  "dem_far_built = snd (bmm_dem_cache_build 8 dem_far)"

section \<open>Loops over indices\<close>

lemma upt_2: "[0 ..< 2] = [0, Suc 0]"
  by (simp add: upt_rec)

lemma fill_ndim_apply: "fill_ndim a c idim = (if idim < BMM_NDIM then c else a idim)"
  by (auto simp: fill_ndim_def BMM_NDIM_def upt_2)

lemma copy_upto_apply: "copy_upto n dst src k = (if k < n then src k else dst k)"
  unfolding copy_upto_def by (induction n) auto

lemma lessThan_2: "{..< (2::nat)} = {0, Suc 0}"
  by auto

lemma size_sub_small:
  assumes "y \<le> x" and "x < 2 ^ 64"
  shows "size_sub x y = x - y"
proof -
  have e: "x + 2 ^ 64 - y = (x - y) + 2 ^ 64" using assms by simp
  have l: "x - y < 2 ^ 64" using assms by simp
  have m: "y mod 2 ^ 64 = y" using assms by simp
  show ?thesis
    unfolding size_sub_def m e by (simp only: mod_add_self2 mod_less l)
qed

section \<open>Rounding of doubles\<close>

lemma round_even_of_int [simp]: "round_even (of_int n) = n"
  by (simp add: round_even_def)

lemma round_even_ge: "of_int n \<le> x \<Longrightarrow> n \<le> round_even x"
proof -
  assume "of_int n \<le> x"
  then have "n \<le> \<lfloor>x\<rfloor>" by (simp add: le_floor_iff)
  then show ?thesis by (auto simp: round_even_def Let_def)
qed

lemma floor_log2_eq:
  assumes "2 powi k \<le> x" and "x < 2 powi (k + 1)"
  shows "\<lfloor>log 2 x\<rfloor> = k"
proof -
  have pos: "0 < x" using assms(1) by (smt (verit) zero_less_power_int)
  have a: "(2::real) powr of_int j = 2 powi j" for j :: int
    by (rule powr_real_of_int') simp_all
  have b: "(2::real) powr (of_int k + 1) = 2 powi (k + 1)"
    using a [of "k + 1"] by simp
  have "2 powr of_int k \<le> x \<and> x < 2 powr (of_int k + 1)"
    unfolding a b using assms by simp
  then show ?thesis
    using floor_log_eq_powr_iff [of x 2 k] pos by simp
qed

lemma floor_log2_bounds:
  assumes "0 < x"
  shows "2 powi \<lfloor>log 2 x\<rfloor> \<le> x" and "x < 2 powi (\<lfloor>log 2 x\<rfloor> + 1)"
proof -
  have a: "(2::real) powr of_int j = 2 powi j" for j :: int
    by (rule powr_real_of_int') simp_all
  have b: "(2::real) powr (of_int j + 1) = 2 powi (j + 1)" for j :: int
    using a [of "j + 1"] by simp
  have "2 powr of_int \<lfloor>log 2 x\<rfloor> \<le> x \<and> x < 2 powr (of_int \<lfloor>log 2 x\<rfloor> + 1)"
    using floor_log_eq_powr_iff [of x 2 "\<lfloor>log 2 x\<rfloor>"] assms by simp
  then show "2 powi \<lfloor>log 2 x\<rfloor> \<le> x" "x < 2 powi (\<lfloor>log 2 x\<rfloor> + 1)"
    unfolding a b by simp_all
qed

lemma floor_log2_less:
  assumes "0 < x" and "x < 2 powi k"
  shows "\<lfloor>log 2 x\<rfloor> < k"
proof (rule ccontr)
  assume "\<not> \<lfloor>log 2 x\<rfloor> < k"
  then have "(2::real) powi k \<le> 2 powi \<lfloor>log 2 x\<rfloor>"
    by (intro power_int_increasing) simp_all
  with floor_log2_bounds(1) [OF assms(1)] assms(2) show False by simp
qed

lemma floor_log2_ge:
  assumes "2 powi k \<le> x"
  shows "k \<le> \<lfloor>log 2 x\<rfloor>"
proof (rule ccontr)
  have pos: "0 < x" using assms by (smt (verit) zero_less_power_int)
  assume "\<not> k \<le> \<lfloor>log 2 x\<rfloor>"
  then have "(2::real) powi (\<lfloor>log 2 x\<rfloor> + 1) \<le> 2 powi k"
    by (intro power_int_increasing) simp_all
  with floor_log2_bounds(2) [OF pos] assms show False by simp
qed

text \<open>A number with a significand of at most 53 bits and an exponent in range is a double.\<close>

lemma fp_round_exact:
  assumes "x = of_int m * 2 powi k" and "\<bar>m\<bar> < 2 ^ 53" and "- 1074 \<le> k"
  shows "fp_round x = x"
proof (cases "x = 0")
  case True
  then show ?thesis by (simp add: fp_round_def)
next
  case False
  let ?e = "fp_exponent x"
  have "\<bar>x\<bar> = of_int \<bar>m\<bar> * 2 powi k"
    by (simp add: assms(1) abs_mult)
  also have "\<dots> < 2 ^ 53 * 2 powi k"
    using assms(2) by (intro mult_strict_right_mono) (simp_all add: of_int_less_numeral_power_cancel_iff)
  also have "\<dots> = 2 powi (k + 53)"
    by (simp add: power_int_add)
  finally have "\<lfloor>log 2 \<bar>x\<bar>\<rfloor> < k + 53"
    using False by (intro floor_log2_less) simp_all
  with assms(3) have e: "?e \<le> k"
    by (simp add: fp_exponent_def)
  have "x / 2 powi ?e = of_int m * 2 powi (k - ?e)"
    by (simp add: assms(1) power_int_diff)
  also have "\<dots> = of_int (m * 2 ^ nat (k - ?e))"
    using e by (simp add: power_int_def)
  finally have "round_even (x / 2 powi ?e) = m * 2 ^ nat (k - ?e)"
    by (simp only: round_even_of_int)
  then have "fp_round x = of_int (m * 2 ^ nat (k - ?e)) * 2 powi ?e"
    using False by (simp add: fp_round_def)
  also have "\<dots> = of_int m * (2 powi (k - ?e) * 2 powi ?e)"
    using e by (simp add: power_int_def)
  also have "2 powi (k - ?e) * 2 powi ?e = (2::real) powi k"
    by (simp flip: power_int_add)
  finally show ?thesis by (simp add: assms(1))
qed

lemma fp_round_nonneg:
  assumes "0 \<le> x"
  shows "0 \<le> fp_round x"
proof -
  have "0 \<le> x / 2 powi fp_exponent x" using assms by simp
  then have "0 \<le> round_even (x / 2 powi fp_exponent x)"
    using round_even_ge [of 0] by simp
  then show ?thesis by (simp add: fp_round_def)
qed

text \<open>Rounding does not cross a power of two.\<close>

lemma fp_round_ge_pow:
  assumes "2 powi j \<le> x" and "- 1022 \<le> j"
  shows "2 powi j \<le> fp_round x"
proof -
  have pos: "0 < x" using assms(1) by (smt (verit) zero_less_power_int)
  let ?L = "\<lfloor>log 2 \<bar>x\<bar>\<rfloor>"
  let ?e = "fp_exponent x"
  have L: "j \<le> ?L" using assms(1) pos by (intro floor_log2_ge) simp
  with assms(2) have e: "?e = ?L - 52" by (simp add: fp_exponent_def)
  have "(2::real) powi ?L \<le> x" using floor_log2_bounds(1) [of "\<bar>x\<bar>"] pos by simp
  then have "2 powi ?L / 2 powi ?e \<le> x / 2 powi ?e"
    by (intro divide_right_mono) simp_all
  moreover have "(2::real) powi ?L / 2 powi ?e = of_int (2 ^ 52)"
    unfolding e by (simp flip: power_int_diff)
  ultimately have "2 ^ 52 \<le> round_even (x / 2 powi ?e)"
    by (intro round_even_ge) simp
  then have "(2 ^ 52 :: real) \<le> of_int (round_even (x / 2 powi ?e))"
    by (simp add: numeral_power_le_of_int_cancel_iff)
  then have a: "(2 ^ 52 :: real) * 2 powi ?e \<le> of_int (round_even (x / 2 powi ?e)) * 2 powi ?e"
    by (intro mult_right_mono) simp_all
  have b: "(2 ^ 52 :: real) * 2 powi ?e = 2 powi ?L"
    unfolding e by (simp add: power_int_diff)
  have c: "(2::real) powi j \<le> 2 powi ?L"
    using L by (intro power_int_increasing) simp_all
  have "fp_round x = of_int (round_even (x / 2 powi ?e)) * 2 powi ?e"
    using pos by (simp add: fp_round_def)
  with a b c show ?thesis by linarith
qed

text \<open>Evaluation of the rounding in the normal range.\<close>

lemma fp_round_normal:
  assumes "2 powi (e + 52) \<le> \<bar>x\<bar>" and "\<bar>x\<bar> < 2 powi (e + 53)" and "- 1074 \<le> e"
  shows "fp_round x = of_int (round_even (x / 2 powi e)) * 2 powi e"
proof -
  have "\<lfloor>log 2 \<bar>x\<bar>\<rfloor> = e + 52"
    using assms(1,2) by (intro floor_log2_eq) (simp_all add: add.assoc)
  with assms(3) have "fp_exponent x = e" by (simp add: fp_exponent_def)
  moreover have "x \<noteq> 0" using assms(1) by (smt (verit) zero_less_power_int abs_zero)
  ultimately show ?thesis by (simp add: fp_round_def)
qed


lemma fp_round_of_nat_double:
  assumes "n < 2 ^ 53"
  shows "fp_round (real (n * 2)) = real (n * 2)"
  using fp_round_exact [of "real (n * 2)" "int n" 1] assms by simp

lemma fp_round_dyadic:
  assumes "\<bar>m\<bar> < 2 ^ 53" and "k \<le> 1074"
  shows "fp_round (of_int m / 2 ^ k) = of_int m / 2 ^ k"
  using fp_round_exact [of "of_int m / 2 ^ k" m "- int k"] assms
  by (simp add: power_int_minus_divide)

lemma fp_round_values:
  "fp_round 0 = 0" "fp_round 1 = 1" "fp_round 2 = 2" "fp_round 3 = 3" "fp_round 4 = 4"
  "fp_round (1 / 2) = 1 / 2" "fp_round (3 / 2) = 3 / 2" "fp_round (5 / 2) = 5 / 2"
  "fp_round (1 / 4) = 1 / 4" "fp_round (3 / 4) = 3 / 4" "fp_round (9 / 4) = 9 / 4"
  "fp_round (13 / 4) = 13 / 4" "fp_round (1 / 8) = 1 / 8"
  using fp_round_dyadic [of 0 0] fp_round_dyadic [of 1 0] fp_round_dyadic [of 2 0]
    fp_round_dyadic [of 3 0] fp_round_dyadic [of 4 0]
    fp_round_dyadic [of 1 1] fp_round_dyadic [of 3 1] fp_round_dyadic [of 5 1]
    fp_round_dyadic [of 1 2] fp_round_dyadic [of 3 2] fp_round_dyadic [of 9 2]
    fp_round_dyadic [of 13 2] fp_round_dyadic [of 1 3]
  by simp_all

lemma DBL_MAX_ge_1: "1 \<le> DBL_MAX"
  by (simp add: DBL_MAX_def)

lemma fp_value_finite:
  assumes "\<bar>fp_round x\<bar> \<le> DBL_MAX"
  shows "fp_value x = Fin (fp_round x)"
  using assms by (auto simp: fp_value_def)

section \<open>Properties of the bond pass\<close>

lemma fold_id: "(\<And>x s. f x s = s) \<Longrightarrow> fold f xs s = s"
  by (induction xs arbitrary: s) simp_all

text \<open>
  C9. The bond pass is a stub: \<^verbatim>\<open>bmm_dem_force_link\<close> returns the state it was given, and so
  does the loop of \<^verbatim>\<open>bmm_dem_force\<close> over all stored bonds. Forces, torques and the whole
  link store (so every bond) are unchanged.
\<close>

theorem bmm_dem_force_link_frame:
  "bmm_dem_force_link dem ipart jpart ilink = dem \<and>
   bmm_dem_force_links dem = dem \<and>
   part_f (dem_part (bmm_dem_force_links dem)) = part_f (dem_part dem) \<and>
   part_tau (dem_part (bmm_dem_force_links dem)) = part_tau (dem_part dem) \<and>
   dem_link (bmm_dem_force_links dem) = dem_link dem"
proof -
  have "bmm_dem_force_links dem = dem"
    unfolding bmm_dem_force_links_def
    by (intro fold_id) (simp add: bmm_dem_force_link_def)
  then show ?thesis
    by (simp add: bmm_dem_force_link_def)
qed

section \<open>Properties of the particle store\<close>

text \<open>
  C7. In a state whose particle count is within the capacity: when the count equals the
  capacity \<^verbatim>\<open>bmm_dem_addpart\<close> returns the sentinel \<^verbatim>\<open>SIZE_MAX\<close> and the state is unchanged;
  otherwise it returns the old count as the new index, the count grows by one, the new
  particle is at the origin with zero velocity and carries the label \<^verbatim>\<open>lnew\<close>, \<^verbatim>\<open>lnew\<close> is
  incremented, the cache is marked stale, and the labels, positions and velocities of the
  other particles are as before.
\<close>

theorem bmm_dem_addpart_spec:
  assumes "part_n (dem_part dem) \<le> MPART" and "MPART \<le> SIZE_MAX"
  shows "if part_n (dem_part dem) = MPART
     then bmm_dem_addpart MPART dem = (SIZE_MAX, dem)
     else (let ipart = part_n (dem_part dem); dem' = snd (bmm_dem_addpart MPART dem) in
       fst (bmm_dem_addpart MPART dem) = ipart \<and>
       part_n (dem_part dem') = ipart + 1 \<and>
       (\<forall>idim < BMM_NDIM. part_x (dem_part dem') ipart idim = 0 \<and>
          part_v (dem_part dem') ipart idim = 0) \<and>
       part_l (dem_part dem') ipart = part_lnew (dem_part dem) \<and>
       part_lnew (dem_part dem') = size_add (part_lnew (dem_part dem)) 1 \<and>
       cache_stale (dem_cache dem') \<and>
       (\<forall>jpart. jpart \<noteq> ipart \<longrightarrow>
          part_l (dem_part dem') jpart = part_l (dem_part dem) jpart \<and>
          part_x (dem_part dem') jpart = part_x (dem_part dem) jpart \<and>
          part_v (dem_part dem') jpart = part_v (dem_part dem) jpart))"
proof (cases "part_n (dem_part dem) = MPART")
  case True
  then show ?thesis by (simp add: bmm_dem_addpart_def)
next
  case False
  with assms have lt: "part_n (dem_part dem) < MPART" by simp
  with assms have "part_n (dem_part dem) + 1 < 2 ^ 64"
    by (simp add: SIZE_MAX_def)
  then have "size_add (part_n (dem_part dem)) 1 = part_n (dem_part dem) + 1"
    by (simp add: size_add_def)
  with lt False show ?thesis
    by (simp add: bmm_dem_addpart_def Let_def fill_ndim_apply)
qed

theorem bmm_dem_addpart_spec_witness:
  "part_n (dem_part (bmm_dem_def bmm_dem_opts_def)) \<le> 2 \<and> (2::nat) \<le> SIZE_MAX \<and>
   fst (bmm_dem_addpart 2 (bmm_dem_def bmm_dem_opts_def)) = 0 \<and>
   part_n (dem_part (snd (bmm_dem_addpart 2 (bmm_dem_def bmm_dem_opts_def)))) = 1 \<and>
   part_lnew (dem_part (snd (bmm_dem_addpart 2 (bmm_dem_def bmm_dem_opts_def)))) = 1 \<and>
   cache_stale (dem_cache (snd (bmm_dem_addpart 2 (bmm_dem_def bmm_dem_opts_def)))) \<and>
   part_n (dem_part (bmm_dem_def bmm_dem_opts_def)) \<le> 0 \<and> (0::nat) \<le> SIZE_MAX \<and>
   bmm_dem_addpart 0 (bmm_dem_def bmm_dem_opts_def) = (SIZE_MAX, bmm_dem_def bmm_dem_opts_def)"
proof -
  have n: "part_n (dem_part (bmm_dem_def bmm_dem_opts_def)) = 0"
    and new: "part_lnew (dem_part (bmm_dem_def bmm_dem_opts_def)) = 0"
    by (simp_all add: bmm_dem_def_def)
  have a: "part_n (dem_part (bmm_dem_def bmm_dem_opts_def)) \<le> 2" and b: "(2::nat) \<le> SIZE_MAX"
    and c: "part_n (dem_part (bmm_dem_def bmm_dem_opts_def)) \<le> 0" and d: "(0::nat) \<le> SIZE_MAX"
    by (simp_all add: n SIZE_MAX_def)
  from bmm_dem_addpart_spec [OF a b] bmm_dem_addpart_spec [OF c d] a b c d
  show ?thesis by (simp add: n new Let_def size_add_def)
qed

lemma labels_fresh_addpart:
  assumes "labels_fresh MPART dem" and "MPART \<le> SIZE_MAX"
    and "part_lnew (dem_part dem) + 1 < 2 ^ 64"
  shows "labels_fresh MPART (snd (bmm_dem_addpart MPART dem))"
    and "part_lnew (dem_part (snd (bmm_dem_addpart MPART dem))) \<le> part_lnew (dem_part dem) + 1"
proof -
  let ?n = "part_n (dem_part dem)"
  show "part_lnew (dem_part (snd (bmm_dem_addpart MPART dem))) \<le> part_lnew (dem_part dem) + 1"
    using assms(3) by (simp add: bmm_dem_addpart_def Let_def size_add_def)
  show "labels_fresh MPART (snd (bmm_dem_addpart MPART dem))"
  proof (cases "?n \<ge> MPART")
    case True
    then show ?thesis using assms(1) by (simp add: bmm_dem_addpart_def)
  next
    case False
    then have n1: "size_add ?n 1 = ?n + 1"
      using assms(2) by (simp add: size_add_def SIZE_MAX_def)
    have l1: "size_add (part_lnew (dem_part dem)) 1 = part_lnew (dem_part dem) + 1"
      using assms(3) by (simp add: size_add_def)
    have fresh: "\<forall>ipart < ?n. part_l (dem_part dem) ipart < part_lnew (dem_part dem)"
      and dist: "distinct (map (part_l (dem_part dem)) [0 ..< ?n])"
      using assms(1) by (simp_all add: labels_fresh_def labels_def)
    have notin: "part_lnew (dem_part dem) \<notin> part_l (dem_part dem) ` {0 ..< ?n}"
      using fresh by auto
    have map_eq: "map ((part_l (dem_part dem))(?n := part_lnew (dem_part dem))) [0 ..< ?n]
        = map (part_l (dem_part dem)) [0 ..< ?n]"
      by simp
    show ?thesis
      using False n1 l1 fresh dist notin map_eq
      by (auto simp: labels_fresh_def labels_def bmm_dem_addpart_def Let_def less_Suc_eq)
  qed
qed

lemma distinct_map_swap_last:
  assumes "distinct (map f [0 ..< Suc m])" and "i \<le> m"
  shows "distinct (map (f(i := f m)) [0 ..< m])"
proof -
  from assms(1) have "inj_on f (set [0 ..< Suc m])"
    by (simp only: distinct_map)
  then have inj: "inj_on f {0 ..< Suc m}"
    by (simp only: set_upt)
  have "inj_on (f(i := f m)) {0 ..< m}"
  proof (rule inj_onI)
    fix a b assume a: "a \<in> {0 ..< m}" and b: "b \<in> {0 ..< m}"
      and eq: "(f(i := f m)) a = (f(i := f m)) b"
    have fa: "(f(i := f m)) a = f (if a = i then m else a)" by simp
    have fb: "(f(i := f m)) b = f (if b = i then m else b)" by simp
    have "(if a = i then m else a) = (if b = i then m else b)"
      using inj a b eq unfolding fa fb
      by (intro inj_onD [OF inj]) auto
    then show "a = b" using a b by (auto split: if_splits)
  qed
  then show ?thesis by (simp add: distinct_map)
qed

lemma labels_fresh_rempart:
  assumes "labels_fresh MPART dem" and "MPART \<le> SIZE_MAX" and "ipart < part_n (dem_part dem)"
  shows "labels_fresh MPART (bmm_dem_rempart dem ipart)"
    and "part_lnew (dem_part (bmm_dem_rempart dem ipart)) = part_lnew (dem_part dem)"
proof -
  let ?n = "part_n (dem_part dem)"
  obtain m where m: "?n = Suc m" using assms(3) by (cases ?n) auto
  have "?n < 2 ^ 64" using assms(1,2) by (simp add: labels_fresh_def SIZE_MAX_def)
  then have sub: "size_sub ?n 1 = m"
    using m by (simp add: size_sub_def)
  show "part_lnew (dem_part (bmm_dem_rempart dem ipart)) = part_lnew (dem_part dem)"
    by (simp add: bmm_dem_rempart_def bmm_dem_reassign_def Let_def)
  have fresh: "\<forall>ipart < Suc m. part_l (dem_part dem) ipart < part_lnew (dem_part dem)"
    and dist: "distinct (map (part_l (dem_part dem)) [0 ..< Suc m])"
    and le: "Suc m \<le> MPART"
    using assms(1) m by (simp_all add: labels_fresh_def labels_def)
  show "labels_fresh MPART (bmm_dem_rempart dem ipart)"
  proof (cases "m = ipart")
    case True
    then show ?thesis
      using sub fresh dist le
      by (simp add: labels_fresh_def labels_def bmm_dem_rempart_def Let_def)
  next
    case False
    have "ipart \<le> m" using assms(3) m by simp
    from distinct_map_swap_last [OF dist this]
    have "distinct (map ((part_l (dem_part dem))(ipart := part_l (dem_part dem) m)) [0 ..< m])" .
    then show ?thesis
      using False sub fresh le
      by (simp add: labels_fresh_def labels_def bmm_dem_rempart_def bmm_dem_reassign_def Let_def)
  qed
qed

lemma labels_fresh_run:
  assumes "MPART \<le> SIZE_MAX"
  shows "labels_fresh MPART dem \<Longrightarrow> ops_valid MPART dem ops \<Longrightarrow>
     part_lnew (dem_part dem) + count_adds ops < 2 ^ 64 \<Longrightarrow>
     labels_fresh MPART (bmm_dem_run MPART dem ops)"
proof (induction ops arbitrary: dem)
  case Nil
  then show ?case by simp
next
  case (Cons op ops)
  show ?case
  proof (cases op)
    case OP_ADD
    have small: "part_lnew (dem_part dem) + 1 < 2 ^ 64"
      using Cons.prems(3) OP_ADD by (simp add: count_adds_def)
    note step = labels_fresh_addpart [OF Cons.prems(1) assms small]
    have "part_lnew (dem_part (snd (bmm_dem_addpart MPART dem))) + count_adds ops < 2 ^ 64"
      using step(2) Cons.prems(3) OP_ADD by (simp add: count_adds_def)
    with Cons.IH [OF step(1)] Cons.prems(2) OP_ADD show ?thesis by simp
  next
    case (OP_REMOVE ipart)
    then have lt: "ipart < part_n (dem_part dem)" using Cons.prems(2) by simp
    note step = labels_fresh_rempart [OF Cons.prems(1) assms lt]
    have "part_lnew (dem_part (bmm_dem_rempart dem ipart)) + count_adds ops < 2 ^ 64"
      using step(2) Cons.prems(3) OP_REMOVE by (simp add: count_adds_def)
    with Cons.IH [OF step(1)] Cons.prems(2) OP_REMOVE show ?thesis by simp
  qed
qed

lemma labels_fresh_init: "labels_fresh MPART (bmm_dem_def opts)"
  by (simp add: labels_fresh_def labels_def bmm_dem_def_def)

text \<open>
  C8, amended. From the initial state of \<^verbatim>\<open>bmm_dem_def\<close>, after a sequence of additions and
  removals in which every removal is applied to an index below the particle count and
  which holds fewer than \<open>2 ^ 64\<close> additions (so the label counter \<^verbatim>\<open>lnew\<close>, a \<^verbatim>\<open>size_t\<close>,
  has not wrapped around), the particle count is at most the capacity and the labels of
  the active slots are pairwise distinct.
\<close>

theorem bmm_dem_labels_distinct:
  assumes "MPART \<le> SIZE_MAX" and "ops_valid MPART (bmm_dem_def opts) ops"
    and "count_adds ops < 2 ^ 64"
  shows "part_n (dem_part (bmm_dem_run MPART (bmm_dem_def opts) ops)) \<le> MPART \<and>
     distinct (labels (bmm_dem_run MPART (bmm_dem_def opts) ops))"
proof -
  have "part_lnew (dem_part (bmm_dem_def opts)) + count_adds ops < 2 ^ 64"
    using assms(3) by (simp add: bmm_dem_def_def)
  from labels_fresh_run [OF assms(1) labels_fresh_init assms(2) this]
  show ?thesis by (simp add: labels_fresh_def)
qed

theorem bmm_dem_labels_distinct_witness:
  "(4::nat) \<le> SIZE_MAX \<and>
   ops_valid 4 (bmm_dem_def bmm_dem_opts_def) [OP_ADD, OP_ADD, OP_REMOVE 0, OP_ADD] \<and>
   count_adds [OP_ADD, OP_ADD, OP_REMOVE 0, OP_ADD] < 2 ^ 64 \<and>
   part_n (dem_part (bmm_dem_run 4 (bmm_dem_def bmm_dem_opts_def)
     [OP_ADD, OP_ADD, OP_REMOVE 0, OP_ADD])) \<le> 4 \<and>
   distinct (labels (bmm_dem_run 4 (bmm_dem_def bmm_dem_opts_def)
     [OP_ADD, OP_ADD, OP_REMOVE 0, OP_ADD]))"
proof -
  have a: "(4::nat) \<le> SIZE_MAX" by (simp add: SIZE_MAX_def)
  have b: "ops_valid 4 (bmm_dem_def bmm_dem_opts_def) [OP_ADD, OP_ADD, OP_REMOVE 0, OP_ADD]"
    by (simp add: bmm_dem_addpart_def bmm_dem_rempart_def bmm_dem_reassign_def
        bmm_dem_def_def Let_def size_add_def size_sub_def)
  have c: "count_adds [OP_ADD, OP_ADD, OP_REMOVE 0, OP_ADD] < 2 ^ 64"
    by (simp add: count_adds_def)
  from bmm_dem_labels_distinct [OF a b c] a b c show ?thesis by simp
qed

lemma bmm_dem_run_append:
  "bmm_dem_run MPART dem (xs @ ys) = bmm_dem_run MPART (bmm_dem_run MPART dem xs) ys"
  by (induction xs arbitrary: dem) simp_all

lemma ops_valid_append:
  "ops_valid MPART dem (xs @ ys) \<longleftrightarrow>
     ops_valid MPART dem xs \<and> ops_valid MPART (bmm_dem_run MPART dem xs) ys"
proof (induction xs arbitrary: dem)
  case Nil
  then show ?case by simp
next
  case (Cons op xs)
  then show ?case by (cases op) simp_all
qed

lemma add_remove_step:
  assumes "part_n (dem_part dem) = 1" and "2 \<le> MPART"
  shows "part_n (dem_part (bmm_dem_run MPART dem [OP_ADD, OP_REMOVE 1])) = 1"
    and "part_l (dem_part (bmm_dem_run MPART dem [OP_ADD, OP_REMOVE 1])) 0 = part_l (dem_part dem) 0"
    and "part_lnew (dem_part (bmm_dem_run MPART dem [OP_ADD, OP_REMOVE 1]))
       = size_add (part_lnew (dem_part dem)) 1"
    and "ops_valid MPART dem [OP_ADD, OP_REMOVE 1]"
  using assms
  by (simp_all add: bmm_dem_addpart_def bmm_dem_rempart_def Let_def size_add_def size_sub_def)

lemma add_remove_cycle:
  assumes "2 \<le> MPART"
  shows "part_n (dem_part dem) = 1 \<Longrightarrow> part_lnew (dem_part dem) < 2 ^ 64 \<Longrightarrow>
     part_n (dem_part (bmm_dem_run MPART dem (concat (replicate k [OP_ADD, OP_REMOVE 1])))) = 1 \<and>
     part_l (dem_part (bmm_dem_run MPART dem (concat (replicate k [OP_ADD, OP_REMOVE 1])))) 0
       = part_l (dem_part dem) 0 \<and>
     part_lnew (dem_part (bmm_dem_run MPART dem (concat (replicate k [OP_ADD, OP_REMOVE 1]))))
       = (part_lnew (dem_part dem) + k) mod 2 ^ 64 \<and>
     ops_valid MPART dem (concat (replicate k [OP_ADD, OP_REMOVE 1]))"
proof (induction k arbitrary: dem)
  case 0
  then show ?case by simp
next
  case (Suc k)
  let ?dem1 = "bmm_dem_run MPART dem [OP_ADD, OP_REMOVE 1]"
  note step = add_remove_step [OF Suc.prems(1) assms]
  have "part_lnew (dem_part ?dem1) < 2 ^ 64"
    unfolding step(3) size_add_def by simp
  note ih = Suc.IH [OF step(1) this]
  have run: "bmm_dem_run MPART dem (concat (replicate (Suc k) [OP_ADD, OP_REMOVE 1]))
      = bmm_dem_run MPART ?dem1 (concat (replicate k [OP_ADD, OP_REMOVE 1]))"
    by simp
  have valid: "ops_valid MPART dem (concat (replicate (Suc k) [OP_ADD, OP_REMOVE 1]))
      = (ops_valid MPART dem [OP_ADD, OP_REMOVE 1] \<and>
         ops_valid MPART ?dem1 (concat (replicate k [OP_ADD, OP_REMOVE 1])))"
    using ops_valid_append [of MPART dem "[OP_ADD, OP_REMOVE 1]"] by simp
  have "(size_add (part_lnew (dem_part dem)) 1 + k) mod 2 ^ 64
      = (part_lnew (dem_part dem) + Suc k) mod 2 ^ 64"
    unfolding size_add_def by (simp add: mod_add_left_eq)
  with ih step show ?case
    unfolding run valid by simp
qed


text \<open>
  C8 as stated, for any sequence, fails once the label counter wraps around: after
  \<^term>\<open>ops_wrap\<close> (every removal of which is valid) the two active slots both carry the
  label 0. The capacity 1024 stands for any capacity of at least two particles.
\<close>

theorem bmm_dem_labels_wrap:
  "ops_valid 1024 (bmm_dem_def bmm_dem_opts_def) ops_wrap \<and>
   part_n (dem_part (bmm_dem_run 1024 (bmm_dem_def bmm_dem_opts_def) ops_wrap)) = 2 \<and>
   labels (bmm_dem_run 1024 (bmm_dem_def bmm_dem_opts_def) ops_wrap) = [0, 0] \<and>
   \<not> distinct (labels (bmm_dem_run 1024 (bmm_dem_def bmm_dem_opts_def) ops_wrap))"
proof -
  let ?cycle = "concat (replicate (2 ^ 64 - 1) [OP_ADD, OP_REMOVE 1])"
  let ?dem0 = "bmm_dem_def bmm_dem_opts_def"
  let ?dem1 = "bmm_dem_apply 1024 ?dem0 OP_ADD"
  let ?dem2 = "bmm_dem_run 1024 ?dem1 ?cycle"
  have n1: "part_n (dem_part ?dem1) = 1" and l1: "part_l (dem_part ?dem1) 0 = 0"
    and new1: "part_lnew (dem_part ?dem1) = 1"
    by (simp_all add: bmm_dem_addpart_def bmm_dem_def_def Let_def size_add_def)
  have "part_lnew (dem_part ?dem1) < 2 ^ 64" unfolding new1 by simp
  from add_remove_cycle [OF _ n1 this, of 1024 "2 ^ 64 - 1"]
  have n2: "part_n (dem_part ?dem2) = 1" and l2: "part_l (dem_part ?dem2) 0 = 0"
    and new2: "part_lnew (dem_part ?dem2) = 0" and valid2: "ops_valid 1024 ?dem1 ?cycle"
    unfolding l1 new1 by simp_all
  have run: "bmm_dem_run 1024 ?dem0 ops_wrap = bmm_dem_apply 1024 ?dem2 OP_ADD"
    unfolding ops_wrap_def by (simp add: bmm_dem_run_append)
  have valid: "ops_valid 1024 ?dem0 ops_wrap"
    unfolding ops_wrap_def using valid2 by (simp add: ops_valid_append)
  have "part_n (dem_part (bmm_dem_apply 1024 ?dem2 OP_ADD)) = 2"
    and "labels (bmm_dem_apply 1024 ?dem2 OP_ADD) = [0, 0]"
    using n2 l2 new2
    by (simp_all add: labels_def bmm_dem_addpart_def Let_def size_add_def upt_2)
  with valid show ?thesis unfolding run by simp
qed

section \<open>Properties of the neighbor cache\<close>

lemma loop_ex_total:
  assumes "\<And>x. x \<in> set xs \<Longrightarrow> test x = Some (P x)"
  shows "loop_ex test xs = Some (\<exists>x \<in> set xs. P x)"
  using assms by (induction xs) (auto split: bool.splits)

lemma cache_expired_dx_eq:
  assumes "3 \<le> opts_cache_ncell (dem_opts dem) idim"
    and "opts_cache_ncell (dem_opts dem) idim \<le> 2 ^ 53"
    and "\<bar>fp_round (opts_box_x (dem_opts dem) idim /
            (2 * (real (opts_cache_ncell (dem_opts dem) idim) - 2)))\<bar> \<le> DBL_MAX"
  shows "cache_expired_dx dem idim =
     Fin (fp_round (opts_box_x (dem_opts dem) idim /
            (2 * (real (opts_cache_ncell (dem_opts dem) idim) - 2))))"
proof -
  let ?n = "opts_cache_ncell (dem_opts dem) idim"
  have "size_sub ?n 2 = ?n - 2"
    using assms by (intro size_sub_small) simp_all
  moreover have "(?n - 2) * 2 < 2 ^ 64" using assms by simp
  ultimately have m: "size_mul (size_sub ?n 2) 2 = (?n - 2) * 2"
    by (simp add: size_mul_def)
  have "fp_round (real ((?n - 2) * 2)) = real ((?n - 2) * 2)"
    using assms by (intro fp_round_of_nat_double) simp
  moreover have "real ((?n - 2) * 2) = 2 * (real ?n - 2)"
    using assms by (simp add: of_nat_diff)
  ultimately have den: "fp_round (real (size_mul (size_sub ?n 2) 2)) = 2 * (real ?n - 2)"
    unfolding m by simp
  have "2 * (real ?n - 2) \<noteq> 0" using assms(1) by simp
  then show ?thesis
    unfolding cache_expired_dx_def den fp_div_def
    by (simp only: if_False fp_value_finite [OF assms(3)])
qed

text \<open>
  C2, amended. With at least three and at most \<open>2 ^ 53\<close> cells per axis, and when no double
  operation of the test overflows, \<^verbatim>\<open>bmm_dem_cache_expired\<close> returns true exactly when for some
  dimension \<open>d\<close> and particle \<open>i\<close> the drift \<open>|swrap(x[i][d] - cache.x[i][d], box.x[d])|\<close> is
  greater than or equal to the safe radius \<open>box.x[d] / (2 * (ncell[d] - 2)) - r[i]\<close>, where the
  difference of the positions, the quotient and the difference with the radius are the
  doubles that the program computes: it returns false when every drift is strictly below
  the safe radius, and a drift of exactly the safe radius triggers the rebuild.
\<close>

theorem bmm_dem_cache_expired_iff:
  assumes "\<forall>idim < BMM_NDIM. 3 \<le> opts_cache_ncell (dem_opts dem) idim \<and>
       opts_cache_ncell (dem_opts dem) idim \<le> 2 ^ 53 \<and>
       \<bar>fp_round (opts_box_x (dem_opts dem) idim /
            (2 * (real (opts_cache_ncell (dem_opts dem) idim) - 2)))\<bar> \<le> DBL_MAX"
    and "\<forall>idim < BMM_NDIM. \<forall>ipart < part_n (dem_part dem).
       \<bar>fp_round (part_x (dem_part dem) ipart idim - cache_x (dem_cache dem) ipart idim)\<bar>
         \<le> DBL_MAX \<and>
       \<bar>fp_round (fp_round (opts_box_x (dem_opts dem) idim /
            (2 * (real (opts_cache_ncell (dem_opts dem) idim) - 2)))
          - part_r (dem_part dem) ipart)\<bar> \<le> DBL_MAX"
  shows "bmm_dem_cache_expired dem = Some
     (\<exists>idim < BMM_NDIM. \<exists>ipart < part_n (dem_part dem).
        \<bar>bmm_fp_swrap
            (fp_round (part_x (dem_part dem) ipart idim - cache_x (dem_cache dem) ipart idim))
            (opts_box_x (dem_opts dem) idim)\<bar>
          \<ge> fp_round (fp_round (opts_box_x (dem_opts dem) idim /
                 (2 * (real (opts_cache_ncell (dem_opts dem) idim) - 2)))
               - part_r (dem_part dem) ipart))"
proof -
  let ?hit = "\<lambda>idim ipart.
        \<bar>bmm_fp_swrap
            (fp_round (part_x (dem_part dem) ipart idim - cache_x (dem_cache dem) ipart idim))
            (opts_box_x (dem_opts dem) idim)\<bar>
          \<ge> fp_round (fp_round (opts_box_x (dem_opts dem) idim /
                 (2 * (real (opts_cache_ncell (dem_opts dem) idim) - 2)))
               - part_r (dem_part dem) ipart)"
  have at: "cache_expired_at dem idim ipart = Some (?hit idim ipart)"
    if "idim < BMM_NDIM" and "ipart < part_n (dem_part dem)" for idim ipart
  proof -
    from assms(1) that(1) have dx: "cache_expired_dx dem idim =
        Fin (fp_round (opts_box_x (dem_opts dem) idim /
            (2 * (real (opts_cache_ncell (dem_opts dem) idim) - 2))))"
      by (intro cache_expired_dx_eq) auto
    from assms(2) that have
      d: "fp_value (part_x (dem_part dem) ipart idim - cache_x (dem_cache dem) ipart idim)
          = Fin (fp_round (part_x (dem_part dem) ipart idim - cache_x (dem_cache dem) ipart idim))"
      and t: "fp_value (fp_round (opts_box_x (dem_opts dem) idim /
            (2 * (real (opts_cache_ncell (dem_opts dem) idim) - 2)))
          - part_r (dem_part dem) ipart)
          = Fin (fp_round (fp_round (opts_box_x (dem_opts dem) idim /
            (2 * (real (opts_cache_ncell (dem_opts dem) idim) - 2)))
          - part_r (dem_part dem) ipart))"
      by (simp_all add: fp_value_finite)
    show ?thesis
      unfolding cache_expired_at_def dx d fp_sub_def fpval.case t fp_ge_def
      by (rule refl)
  qed
  have inner: "loop_ex (cache_expired_at dem idim) [0 ..< part_n (dem_part dem)]
      = Some (\<exists>ipart \<in> set [0 ..< part_n (dem_part dem)]. ?hit idim ipart)"
    if "idim < BMM_NDIM" for idim
    by (rule loop_ex_total) (simp add: at that)
  have "bmm_dem_cache_expired dem
      = Some (\<exists>idim \<in> set [0 ..< BMM_NDIM].
          \<exists>ipart \<in> set [0 ..< part_n (dem_part dem)]. ?hit idim ipart)"
    unfolding bmm_dem_cache_expired_def
    by (rule loop_ex_total) (simp add: inner)
  also have "(\<exists>idim \<in> set [0 ..< BMM_NDIM].
          \<exists>ipart \<in> set [0 ..< part_n (dem_part dem)]. ?hit idim ipart)
      \<longleftrightarrow> (\<exists>idim < BMM_NDIM. \<exists>ipart < part_n (dem_part dem). ?hit idim ipart)"
    by (simp add: Bex_def)
  finally show ?thesis .
qed

lemma dem_drift_fields:
  "part_n (dem_part dem_drift) = 1"
  "part_x (dem_part dem_drift) 0 = (\<lambda>idim. if idim = 0 then 1 / 8 else 0)"
  "part_r (dem_part dem_drift) 0 = 1 / 8"
  "cache_x (dem_cache dem_drift) 0 = (\<lambda>idim. 0)"
  "opts_box_x (dem_opts dem_drift) = (\<lambda>idim. 1)"
  "opts_cache_ncell (dem_opts dem_drift) = (\<lambda>idim. 4)"
  by (auto simp: dem_drift_def bmm_dem_addpart_def bmm_dem_def_def bmm_dem_opts_def_def Let_def
      size_add_def fill_ndim_apply fun_eq_iff)

lemma dem_drift_at:
  "cache_expired_at dem_drift 0 0 = Some True"
proof -
  have "size_mul (size_sub 4 2) 2 = 4"
    using size_sub_small [of 2 4] by (simp add: size_mul_def)
  then have dx: "cache_expired_dx dem_drift 0 = Fin (1 / 4)"
    using DBL_MAX_ge_1
    by (simp add: cache_expired_dx_def dem_drift_fields fp_div_def fp_value_def fp_round_values)
  have d: "fp_value (1 / 8) = Fin (1 / 8)"
    using DBL_MAX_ge_1 by (simp add: fp_value_def fp_round_values)
  show ?thesis
    by (simp add: cache_expired_at_def dem_drift_fields dx d fp_sub_def fp_ge_def
        bmm_fp_swrap_def bmm_fp_wrap_def)
qed

text \<open>
  C2 as stated fails at the boundary: in \<^term>\<open>dem_drift\<close> the drift of the only particle
  equals the safe radius in the first dimension and is below it in the second, all the
  numbers being doubles, and \<^verbatim>\<open>bmm_dem_cache_expired\<close> returns true.
\<close>

theorem bmm_dem_cache_expired_at_radius:
  "part_n (dem_part dem_drift) = 1 \<and>
   \<bar>bmm_fp_swrap (part_x (dem_part dem_drift) 0 0 - cache_x (dem_cache dem_drift) 0 0)
       (opts_box_x (dem_opts dem_drift) 0)\<bar> = 1 / 8 \<and>
   opts_box_x (dem_opts dem_drift) 0 / (2 * (real (opts_cache_ncell (dem_opts dem_drift) 0) - 2))
     - part_r (dem_part dem_drift) 0 = 1 / 8 \<and>
   \<bar>bmm_fp_swrap (part_x (dem_part dem_drift) 0 1 - cache_x (dem_cache dem_drift) 0 1)
       (opts_box_x (dem_opts dem_drift) 1)\<bar> = 0 \<and>
   opts_box_x (dem_opts dem_drift) 1 / (2 * (real (opts_cache_ncell (dem_opts dem_drift) 1) - 2))
     - part_r (dem_part dem_drift) 0 = 1 / 8 \<and>
   bmm_dem_cache_expired dem_drift = Some True"
  by (simp add: dem_drift_fields bmm_fp_swrap_def bmm_fp_wrap_def bmm_dem_cache_expired_def
      BMM_NDIM_def upt_2 dem_drift_at)

theorem bmm_dem_cache_expired_iff_witness:
  "3 \<le> opts_cache_ncell (dem_opts dem_drift) 0 \<and>
   opts_cache_ncell (dem_opts dem_drift) 0 \<le> 2 ^ 53 \<and>
   3 \<le> opts_cache_ncell (dem_opts dem_drift) 1 \<and>
   opts_cache_ncell (dem_opts dem_drift) 1 \<le> 2 ^ 53 \<and>
   \<bar>fp_round (opts_box_x (dem_opts dem_drift) 0 /
        (2 * (real (opts_cache_ncell (dem_opts dem_drift) 0) - 2)))\<bar> \<le> DBL_MAX \<and>
   \<bar>fp_round (part_x (dem_part dem_drift) 0 0 - cache_x (dem_cache dem_drift) 0 0)\<bar>
     \<le> DBL_MAX \<and>
   \<bar>fp_round (fp_round (opts_box_x (dem_opts dem_drift) 0 /
        (2 * (real (opts_cache_ncell (dem_opts dem_drift) 0) - 2)))
      - part_r (dem_part dem_drift) 0)\<bar> \<le> DBL_MAX \<and>
   bmm_dem_cache_expired dem_drift = Some True \<and>
   (\<exists>idim < BMM_NDIM. \<exists>ipart < part_n (dem_part dem_drift).
      \<bar>bmm_fp_swrap
          (fp_round (part_x (dem_part dem_drift) ipart idim - cache_x (dem_cache dem_drift) ipart idim))
          (opts_box_x (dem_opts dem_drift) idim)\<bar>
        \<ge> fp_round (fp_round (opts_box_x (dem_opts dem_drift) idim /
               (2 * (real (opts_cache_ncell (dem_opts dem_drift) idim) - 2)))
             - part_r (dem_part dem_drift) ipart))"
proof -
  have h1: "\<forall>idim < BMM_NDIM. 3 \<le> opts_cache_ncell (dem_opts dem_drift) idim \<and>
       opts_cache_ncell (dem_opts dem_drift) idim \<le> 2 ^ 53 \<and>
       \<bar>fp_round (opts_box_x (dem_opts dem_drift) idim /
            (2 * (real (opts_cache_ncell (dem_opts dem_drift) idim) - 2)))\<bar> \<le> DBL_MAX"
    using DBL_MAX_ge_1 by (simp add: dem_drift_fields fp_round_values)
  have h2: "\<forall>idim < BMM_NDIM. \<forall>ipart < part_n (dem_part dem_drift).
       \<bar>fp_round (part_x (dem_part dem_drift) ipart idim - cache_x (dem_cache dem_drift) ipart idim)\<bar>
         \<le> DBL_MAX \<and>
       \<bar>fp_round (fp_round (opts_box_x (dem_opts dem_drift) idim /
            (2 * (real (opts_cache_ncell (dem_opts dem_drift) idim) - 2)))
          - part_r (dem_part dem_drift) ipart)\<bar> \<le> DBL_MAX"
    using DBL_MAX_ge_1 by (simp add: dem_drift_fields fp_round_values)
  have e: "bmm_dem_cache_expired dem_drift = Some True"
    by (simp add: bmm_dem_cache_expired_def BMM_NDIM_def upt_2 dem_drift_fields dem_drift_at)
  from bmm_dem_cache_expired_iff [OF h1 h2] e h1 h2 DBL_MAX_ge_1 show ?thesis
    by (simp add: dem_drift_fields BMM_NDIM_def fp_round_values)
qed

lemma dem_rounded_fields:
  "part_n (dem_part dem_rounded) = 1"
  "part_x (dem_part dem_rounded) 0 = (\<lambda>idim. if idim = 0 then 3752999689475413 / 2 ^ 55 else 0)"
  "part_r (dem_part dem_rounded) 0 = 1 / 16"
  "cache_x (dem_cache dem_rounded) 0 = (\<lambda>idim. 0)"
  "opts_box_x (dem_opts dem_rounded) = (\<lambda>idim. 1)"
  "opts_cache_ncell (dem_opts dem_rounded) = (\<lambda>idim. 5)"
  by (auto simp: dem_rounded_def bmm_dem_addpart_def bmm_dem_def_def bmm_dem_opts_def_def Let_def
      size_add_def fill_ndim_apply fun_eq_iff)

text \<open>
  The rounding of the division and of the subtraction counts: in \<^term>\<open>dem_rounded\<close> the drift
  is below the exact \<open>box / (2 * (ncell - 2)) - r\<close> and the cache has expired, because the
  drift equals the safe radius that the doubles give.
\<close>

lemma bmm_dem_cache_expired_rounded:
  "\<bar>bmm_fp_swrap (part_x (dem_part dem_rounded) 0 0 - cache_x (dem_cache dem_rounded) 0 0)
       (opts_box_x (dem_opts dem_rounded) 0)\<bar>
     < opts_box_x (dem_opts dem_rounded) 0 /
         (2 * (real (opts_cache_ncell (dem_opts dem_rounded) 0) - 2))
       - part_r (dem_part dem_rounded) 0"
  "bmm_dem_cache_expired dem_rounded = Some True"
proof -
  show "\<bar>bmm_fp_swrap (part_x (dem_part dem_rounded) 0 0 - cache_x (dem_cache dem_rounded) 0 0)
       (opts_box_x (dem_opts dem_rounded) 0)\<bar>
     < opts_box_x (dem_opts dem_rounded) 0 /
         (2 * (real (opts_cache_ncell (dem_opts dem_rounded) 0) - 2))
       - part_r (dem_part dem_rounded) 0"
    by (simp add: dem_rounded_fields bmm_fp_swrap_def bmm_fp_wrap_def)
  have six: "fp_round (1 / 6) = 6004799503160661 / 2 ^ 55"
    using fp_round_normal [of "- 55" "1 / 6"] by (simp add: round_even_def)
  have big: "1 \<le> DBL_MAX" by (rule DBL_MAX_ge_1)
  have "size_mul (size_sub 5 2) 2 = 6"
    using size_sub_small [of 2 5] by (simp add: size_mul_def)
  moreover have "fp_round 6 = 6" using fp_round_dyadic [of 6 0] by simp
  ultimately have dx: "cache_expired_dx dem_rounded 0 = Fin (6004799503160661 / 2 ^ 55)"
    using big by (simp add: cache_expired_dx_def dem_rounded_fields fp_div_def fp_value_def six)
  have thr: "fp_round (6004799503160661 / 2 ^ 55 - 1 / 16) = 3752999689475413 / 2 ^ 55"
    using fp_round_dyadic [of 3752999689475413 55] by simp
  have x: "fp_round (3752999689475413 / 2 ^ 55) = 3752999689475413 / 2 ^ 55"
    using fp_round_dyadic [of 3752999689475413 55] by simp
  have d: "fp_value (3752999689475413 / 2 ^ 55) = Fin (3752999689475413 / 2 ^ 55)"
    using big unfolding fp_value_def x by simp
  have t: "fp_value (6004799503160661 / 2 ^ 55 - 1 / 16) = Fin (3752999689475413 / 2 ^ 55)"
    using big unfolding fp_value_def thr by simp
  have px: "part_x (dem_part dem_rounded) 0 0 - cache_x (dem_cache dem_rounded) 0 0
      = 3752999689475413 / 2 ^ 55"
    and r: "part_r (dem_part dem_rounded) 0 = 1 / 16"
    and box: "opts_box_x (dem_opts dem_rounded) 0 = 1"
    by (simp_all add: dem_rounded_fields)
  have sw: "\<bar>bmm_fp_swrap (3752999689475413 / 2 ^ 55) 1\<bar> = 3752999689475413 / 2 ^ 55"
    by (simp add: bmm_fp_swrap_def bmm_fp_wrap_def)
  have "cache_expired_at dem_rounded 0 0 = Some True"
    unfolding cache_expired_at_def px d fpval.case dx fp_sub_def r t fp_ge_def box sw
    by simp
  then show "bmm_dem_cache_expired dem_rounded = Some True"
    by (simp add: bmm_dem_cache_expired_def BMM_NDIM_def upt_2 dem_rounded_fields)
qed

text \<open>
  With two cells per axis the divisor is zero: in a box of positive size \<^verbatim>\<open>dx\<close> is infinite,
  no drift reaches it, and the cache does not expire.
\<close>

lemma bmm_dem_cache_expired_two_cells:
  assumes "\<forall>idim < BMM_NDIM. opts_cache_ncell (dem_opts dem) idim = 2 \<and>
       0 < opts_box_x (dem_opts dem) idim"
    and "\<forall>idim < BMM_NDIM. \<forall>ipart < part_n (dem_part dem).
       \<bar>fp_round (part_x (dem_part dem) ipart idim - cache_x (dem_cache dem) ipart idim)\<bar>
         \<le> DBL_MAX"
  shows "bmm_dem_cache_expired dem = Some False"
proof -
  have at: "cache_expired_at dem idim ipart = Some False"
    if "idim < BMM_NDIM" and "ipart < part_n (dem_part dem)" for idim ipart
  proof -
    have "size_mul (size_sub 2 2) 2 = 0"
      using size_sub_small [of 2 2] by (simp add: size_mul_def)
    moreover from assms(1) that(1) have "opts_cache_ncell (dem_opts dem) idim = 2"
      and "0 < opts_box_x (dem_opts dem) idim"
      by simp_all
    ultimately have dx: "cache_expired_dx dem idim = PInf"
      by (simp add: cache_expired_dx_def fp_div_def fp_round_values)
    from assms(2) that have
      d: "fp_value (part_x (dem_part dem) ipart idim - cache_x (dem_cache dem) ipart idim)
          = Fin (fp_round (part_x (dem_part dem) ipart idim - cache_x (dem_cache dem) ipart idim))"
      by (simp add: fp_value_finite)
    show ?thesis
      unfolding cache_expired_at_def dx d fp_sub_def fpval.case fp_ge_def
      by (rule refl)
  qed
  have inner: "loop_ex (cache_expired_at dem idim) [0 ..< part_n (dem_part dem)]
      = Some (\<exists>ipart \<in> set [0 ..< part_n (dem_part dem)]. False)"
    if "idim < BMM_NDIM" for idim
    by (rule loop_ex_total) (simp add: at that)
  have "bmm_dem_cache_expired dem = Some (\<exists>idim \<in> set [0 ..< BMM_NDIM]. False)"
    unfolding bmm_dem_cache_expired_def
    by (rule loop_ex_total) (simp add: inner)
  then show ?thesis by simp
qed




lemma bmm_fp_lerp_eval:
  assumes "fp_round (x - x0) = a" and "fp_round (y1 - y0) = b" and "fp_round (a * b) = c"
    and "fp_round (x1 - x0) = d" and "fp_round (c / d) = e" and "fp_round (e + y0) = r"
  shows "bmm_fp_lerp x x0 x1 y0 y1 = r"
  by (simp add: bmm_fp_lerp_def assms)

text \<open>
  Rounding can take the interpolation to the next integer: the double nearest to 1/3 in a
  unit box of five cells, and the double below 1 in a unit box of three cells, both get
  \<open>t = 2\<close>, where the exact values are below 2.
\<close>

lemma bmm_fp_lerp_rounds_up:
  "bmm_fp_lerp (6004799503160661 / 2 ^ 54) 0 1 1 4 = 2"
  "bmm_fp_lerp (9007199254740991 / 2 ^ 53) 0 1 1 2 = 2"
proof -
  have a: "fp_round (6004799503160661 / 2 ^ 54) = 6004799503160661 / 2 ^ 54"
    using fp_round_dyadic [of 6004799503160661 54] by simp
  have b: "fp_round (18014398509481983 / 2 ^ 54) = 1"
    using fp_round_normal [of "- 53" "18014398509481983 / 2 ^ 54"]
    by (simp add: round_even_def)
  show "bmm_fp_lerp (6004799503160661 / 2 ^ 54) 0 1 1 4 = 2"
  proof (rule bmm_fp_lerp_eval [where a = "6004799503160661 / 2 ^ 54" and b = 3 and c = 1
        and d = 1 and e = 1])
    show "fp_round (6004799503160661 / 2 ^ 54 - 0) = 6004799503160661 / 2 ^ 54"
      using a by simp
    show "fp_round (6004799503160661 / 2 ^ 54 * 3) = 1"
      using b by simp
  qed (simp_all add: fp_round_values)
  have c: "fp_round (9007199254740991 / 2 ^ 53) = 9007199254740991 / 2 ^ 53"
    using fp_round_dyadic [of 9007199254740991 53] by simp
  have d: "fp_round (18014398509481983 / 2 ^ 53) = 2"
    using fp_round_normal [of "- 52" "18014398509481983 / 2 ^ 53"]
    by (simp add: round_even_def)
  show "bmm_fp_lerp (9007199254740991 / 2 ^ 53) 0 1 1 2 = 2"
  proof (rule bmm_fp_lerp_eval [where a = "9007199254740991 / 2 ^ 53" and b = 1
        and c = "9007199254740991 / 2 ^ 53" and d = 1 and e = "9007199254740991 / 2 ^ 53"])
    show "fp_round (9007199254740991 / 2 ^ 53 - 0) = 9007199254740991 / 2 ^ 53"
      using c by simp
    show "fp_round (9007199254740991 / 2 ^ 53 * 1) = 9007199254740991 / 2 ^ 53"
      using c by simp
    show "fp_round (9007199254740991 / 2 ^ 53 / 1) = 9007199254740991 / 2 ^ 53"
      using c by simp
    show "fp_round (9007199254740991 / 2 ^ 53 + 1) = 2"
      using d by simp
  qed (simp_all add: fp_round_values)
qed




section \<open>Properties of the force accumulator\<close>

lemma fold_commute_state:
  assumes "\<And>x s. f x (g s) = g (f x s)"
  shows "fold f xs (g s) = g (fold f xs s)"
  by (induction xs arbitrary: s) (simp_all add: assms)

lemma fold_id_on: "(\<And>x. x \<in> set xs \<Longrightarrow> f x s = s) \<Longrightarrow> fold f xs s = s"
  by (induction xs) simp_all

lemma set_famb_fields [simp]:
  "dem_part (set_famb a dem) = dem_part dem"
  "dem_cache (set_famb a dem) = dem_cache dem"
  "dem_link (set_famb a dem) = dem_link dem"
  "dem_script_i (set_famb a dem) = dem_script_i dem"
  "opts_famb (dem_opts (set_famb a dem)) = a"
  "opts_caching (dem_opts (set_famb a dem)) = opts_caching (dem_opts dem)"
  "opts_script_mode (dem_opts (set_famb a dem)) = opts_script_mode (dem_opts dem)"
  by (simp_all add: set_famb_def)

lemma force_pair_set_famb:
  "bmm_dem_force_pair (set_famb a dem) ipart jpart = set_famb a (bmm_dem_force_pair dem ipart jpart)"
proof -
  have loc0: "pair_d2 (set_famb a dem) ipart jpart = pair_d2 dem ipart jpart"
    "pair_r (set_famb a dem) ipart jpart = pair_r dem ipart jpart"
    "pair_xnorm (set_famb a dem) ipart jpart = pair_xnorm dem ipart jpart"
    "pair_xtang (set_famb a dem) ipart jpart = pair_xtang dem ipart jpart"
    "pair_xi (set_famb a dem) ipart jpart = pair_xi dem ipart jpart"
    "pair_dotxi (set_famb a dem) ipart jpart = pair_dotxi dem ipart jpart"
    "pair_vtang (set_famb a dem) ipart jpart = pair_vtang dem ipart jpart"
    by (simp_all add: set_famb_def pair_d2_def pair_r_def pair_xnorm_def pair_xtang_def
        pair_xdiff_def pair_d_def pair_xi_def pair_dotxi_def pair_vtang_def pair_vdiff_def)
  have fn: "pair_fn (set_famb a dem) ipart jpart = pair_fn dem ipart jpart"
    unfolding pair_fn_def loc0 by (simp add: set_famb_def split: bmm_dem_fnorm.splits)
  have ft: "pair_ft (set_famb a dem) ipart jpart = pair_ft dem ipart jpart"
    unfolding pair_ft_def loc0 fn by (simp add: set_famb_def split: bmm_dem_ftang.splits)
  note loc = loc0 fn ft
  have upd: "addto_f (set_famb a s) i v = set_famb a (addto_f s i v)"
    "addto_tau (set_famb a s) i t = set_famb a (addto_tau s i t)" for s i v t
    by (simp_all add: set_famb_def addto_f_def addto_tau_def)
  show ?thesis
    unfolding bmm_dem_force_pair_def Let_def loc
    by (simp add: upd)
qed

lemma force_clear_set_famb:
  "bmm_dem_force_clear (set_famb a dem) = set_famb a (bmm_dem_force_clear dem)"
  unfolding bmm_dem_force_clear_def set_famb_fields
  by (rule fold_commute_state) (simp add: set_famb_def force_clear_part_def)

lemma force_pairs_set_famb:
  "bmm_dem_force_pairs (set_famb a dem) = set_famb a (bmm_dem_force_pairs dem)"
proof -
  have inner: "fold (\<lambda>jpart dem. bmm_dem_force_pair dem ipart jpart) js (set_famb a s)
      = set_famb a (fold (\<lambda>jpart dem. bmm_dem_force_pair dem ipart jpart) js s)" for ipart js s
    by (rule fold_commute_state) (rule force_pair_set_famb)
  show ?thesis
  proof (cases "opts_caching (dem_opts dem)")
    case BMM_DEM_CACHING_NONE
    then show ?thesis
      unfolding bmm_dem_force_pairs_def set_famb_fields
      by (simp, intro fold_commute_state) (simp add: inner)
  next
    case BMM_DEM_CACHING_NEIGH
    then show ?thesis
      unfolding bmm_dem_force_pairs_def set_famb_fields
      by (simp, intro fold_commute_state) (simp add: inner)
  qed
qed

lemma force_links_set_famb:
  "bmm_dem_force_links (set_famb a dem) = set_famb a (bmm_dem_force_links dem)"
proof -
  have "bmm_dem_force_links s = s" for s
    unfolding bmm_dem_force_links_def
    by (intro fold_id) (simp add: bmm_dem_force_link_def)
  then show ?thesis by simp
qed

lemma force_externals_set_famb:
  "bmm_dem_force_externals (set_famb a dem) = set_famb a (bmm_dem_force_externals dem)"
  unfolding bmm_dem_force_externals_def set_famb_fields
  by (rule fold_commute_state)
    (simp add: bmm_dem_force_external_def set_famb_def split: bmm_dem_mode.splits)

lemma force_clear_result:
  "fold (\<lambda>ipart dem. force_clear_part dem ipart) [0 ..< k] dem
   = dem\<lparr>dem_part := (dem_part dem)\<lparr>
       part_f := (\<lambda>ipart. if ipart < k then fill_ndim (part_f (dem_part dem) ipart) 0
                  else part_f (dem_part dem) ipart),
       part_tau := (\<lambda>ipart. if ipart < k then 0 else part_tau (dem_part dem) ipart)\<rparr>\<rparr>"
proof (induction k)
  case 0
  then show ?case by simp
next
  case (Suc k)
  have f: "(\<lambda>ipart. if ipart < k then fill_ndim (part_f (dem_part dem) ipart) 0
                  else part_f (dem_part dem) ipart)(k := fill_ndim (part_f (dem_part dem) k) 0)
      = (\<lambda>ipart. if ipart < Suc k then fill_ndim (part_f (dem_part dem) ipart) 0
                  else part_f (dem_part dem) ipart)"
    by (auto simp: fun_eq_iff)
  have t: "(\<lambda>ipart. if ipart < k then 0 else part_tau (dem_part dem) ipart)(k := 0)
      = (\<lambda>ipart. if ipart < Suc k then 0 else part_tau (dem_part dem) ipart)"
    by (auto simp: fun_eq_iff)
  have "fold (\<lambda>ipart dem. force_clear_part dem ipart) [0 ..< Suc k] dem
      = force_clear_part (fold (\<lambda>ipart dem. force_clear_part dem ipart) [0 ..< k] dem) k"
    by simp
  also have "\<dots> = dem\<lparr>dem_part := (dem_part dem)\<lparr>
       part_f := (\<lambda>ipart. if ipart < Suc k then fill_ndim (part_f (dem_part dem) ipart) 0
                  else part_f (dem_part dem) ipart),
       part_tau := (\<lambda>ipart. if ipart < Suc k then 0 else part_tau (dem_part dem) ipart)\<rparr>\<rparr>"
    by (simp only: Suc.IH) (simp add: force_clear_part_def f t)
  finally show ?case .
qed

lemma force_clear_n: "part_n (dem_part (bmm_dem_force_clear dem)) = part_n (dem_part dem)"
  unfolding bmm_dem_force_clear_def force_clear_result by simp

lemma force_clear_zero:
  assumes "ipart < part_n (dem_part dem)" and "idim < BMM_NDIM"
  shows "part_f (dem_part (bmm_dem_force_clear dem)) ipart idim = 0"
  using assms unfolding bmm_dem_force_clear_def force_clear_result
  by (simp add: fill_ndim_apply)

lemma scale_f_zero:
  assumes "\<forall>idim < BMM_NDIM. part_f (dem_part dem) ipart idim = 0"
  shows "scale_f dem ipart c = dem"
proof -
  have z: "part_f (dem_part dem) ipart 0 = 0" "part_f (dem_part dem) ipart (Suc 0) = 0"
    using assms by (simp_all add: BMM_NDIM_def)
  have "(part_f (dem_part dem))(ipart := (part_f (dem_part dem) ipart)(0 := 0))
      = part_f (dem_part dem)"
    using z(1) by (simp add: fun_upd_idem)
  moreover have "(part_f (dem_part dem))(ipart := (part_f (dem_part dem) ipart)(Suc 0 := 0))
      = part_f (dem_part dem)"
    using z(2) by (simp add: fun_upd_idem)
  ultimately show ?thesis
    by (simp add: scale_f_def BMM_NDIM_def upt_2 z)
qed

lemma force_ambients_after_clear:
  "bmm_dem_force_ambients (bmm_dem_force_clear dem) = bmm_dem_force_clear dem"
  unfolding bmm_dem_force_ambients_def
proof (rule fold_id_on)
  fix ipart
  assume "ipart \<in> set [0 ..< part_n (dem_part (bmm_dem_force_clear dem))]"
  then have "ipart < part_n (dem_part dem)"
    by (simp add: force_clear_n)
  then have "\<forall>idim < BMM_NDIM. part_f (dem_part (bmm_dem_force_clear dem)) ipart idim = 0"
    by (simp add: force_clear_zero)
  then show "bmm_dem_force_ambient (bmm_dem_force_clear dem) ipart = bmm_dem_force_clear dem"
    by (simp add: bmm_dem_force_ambient_def scale_f_zero split: bmm_dem_famb.splits)
qed

lemma bmm_dem_force_set_famb:
  "bmm_dem_force (set_famb a dem) =
     set_famb a (bmm_dem_force_externals (bmm_dem_force_links (bmm_dem_force_pairs
       (bmm_dem_force_clear dem))))"
  unfolding bmm_dem_force_def force_ambients_after_clear
  by (simp only: force_clear_set_famb force_pairs_set_famb force_links_set_famb
      force_externals_set_famb)

text \<open>
  C10. \<^verbatim>\<open>bmm_dem_force\<close> with the ambient law CREEPING ends with the same forces \<^verbatim>\<open>f\<close> and
  torques \<^verbatim>\<open>tau\<close> as with either identity law (QUAD, CORR), from every state: the ambient
  pass runs right after the forces of the active particles are zeroed, so it multiplies
  zeros and leaves the state as the clearing pass made it.
\<close>

theorem bmm_dem_force_creeping_identity:
  "part_f (dem_part (bmm_dem_force (set_famb BMM_DEM_FAMB_CREEPING dem)))
     = part_f (dem_part (bmm_dem_force (set_famb BMM_DEM_FAMB_QUAD dem))) \<and>
   part_tau (dem_part (bmm_dem_force (set_famb BMM_DEM_FAMB_CREEPING dem)))
     = part_tau (dem_part (bmm_dem_force (set_famb BMM_DEM_FAMB_QUAD dem))) \<and>
   part_f (dem_part (bmm_dem_force (set_famb BMM_DEM_FAMB_CREEPING dem)))
     = part_f (dem_part (bmm_dem_force (set_famb BMM_DEM_FAMB_CORR dem))) \<and>
   part_tau (dem_part (bmm_dem_force (set_famb BMM_DEM_FAMB_CREEPING dem)))
     = part_tau (dem_part (bmm_dem_force (set_famb BMM_DEM_FAMB_CORR dem))) \<and>
   bmm_dem_force_ambients (bmm_dem_force_clear (set_famb BMM_DEM_FAMB_CREEPING dem))
     = bmm_dem_force_clear (set_famb BMM_DEM_FAMB_CREEPING dem)"
  by (simp add: bmm_dem_force_set_famb force_ambients_after_clear)









section \<open>Properties of index packing\<close>

lemma bmm_unhcd_mod: "bmm_unhcd w ij k nper = unhcd_value ij nper k mod 2 ^ w"
proof (induction k)
  case 0
  then show ?case by (simp add: bmm_unhcd_def)
next
  case (Suc k)
  have "bmm_unhcd w ij (Suc k) nper =
      ((bmm_unhcd w ij k nper * nper k) mod 2 ^ w + ij k) mod 2 ^ w"
    by (simp add: bmm_unhcd_def)
  also have "\<dots> = (unhcd_value ij nper k * nper k + ij k) mod 2 ^ w"
    unfolding Suc.IH by (simp add: mod_mult_left_eq mod_add_left_eq)
  finally show ?case by simp
qed

lemma unhcd_value_less:
  assumes "\<forall>d < k. ij d < nper d"
  shows "unhcd_value ij nper k < (\<Prod>d < k. nper d)"
  using assms
proof (induction k)
  case 0
  then show ?case by simp
next
  case (Suc k)
  then have ih: "unhcd_value ij nper k < (\<Prod>d < k. nper d)" and d: "ij k < nper k"
    by simp_all
  have "unhcd_value ij nper k * nper k + ij k < (unhcd_value ij nper k + 1) * nper k"
    using d by simp
  also have "\<dots> \<le> (\<Prod>d < k. nper d) * nper k"
    using ih by (intro mult_right_mono) simp_all
  finally show ?case by simp
qed

lemma unhcd_value_cong:
  "(\<forall>d < k. ij d = ij' d) \<Longrightarrow> unhcd_value ij nper k = unhcd_value ij' nper k"
  by (induction k) simp_all

lemma hcd_fold_Suc:
  "fold (hcd_step (Suc k) nper) [0 ..< Suc k] st
     = fold (hcd_step k nper) [0 ..< k] (hcd_step (Suc k) nper 0 st)"
proof -
  have "Suc k - 1 - Suc idim = k - 1 - idim" for idim
    by simp
  then have step: "hcd_step (Suc k) nper (Suc idim) = hcd_step k nper idim" for idim
    unfolding hcd_step_def by (simp only:)
  have "[0 ..< Suc k] = 0 # map Suc [0 ..< k]"
    by (simp add: upt_conv_Cons map_Suc_upt del: upt_Suc)
  then show ?thesis
    by (simp add: fold_map comp_def step del: upt_Suc)
qed

lemma bmm_hcd_Suc:
  "bmm_hcd pij i (Suc k) nper =
     (if nper k = 0 then None else bmm_hcd (pij(k := i mod nper k)) (i div nper k) k nper)"
proof -
  have none: "fold (hcd_step k nper) xs None = None" for xs
    by (induction xs) (simp_all add: hcd_step_def)
  show ?thesis
    unfolding bmm_hcd_def hcd_fold_Suc
    by (simp add: hcd_step_def bmm_quot_uint_def none)
qed

lemma bmm_hcd_0: "bmm_hcd pij i 0 nper = Some pij"
  by (simp add: bmm_hcd_def)

lemma bmm_hcd_unpack:
  "i < (\<Prod>d < k. nper d) \<Longrightarrow>
     \<exists>pij'. bmm_hcd pij i k nper = Some pij' \<and> unhcd_value pij' nper k = i \<and>
       (\<forall>d < k. pij' d < nper d) \<and> (\<forall>d \<ge> k. pij' d = pij d)"
proof (induction k arbitrary: i pij)
  case 0
  then show ?case by (simp add: bmm_hcd_0)
next
  case (Suc k)
  from Suc.prems have lt: "i < (\<Prod>d < k. nper d) * nper k" by simp
  then have pos: "0 < nper k" by (cases "nper k = 0") simp_all
  from lt have "i div nper k < (\<Prod>d < k. nper d)"
    using pos by (simp add: less_mult_imp_div_less)
  from Suc.IH [OF this, of "pij(k := i mod nper k)"]
  obtain pij' where p: "bmm_hcd (pij(k := i mod nper k)) (i div nper k) k nper = Some pij'"
    "unhcd_value pij' nper k = i div nper k" "\<forall>d < k. pij' d < nper d"
    "\<forall>d \<ge> k. pij' d = (pij(k := i mod nper k)) d"
    by blast
  from p(4) have k: "pij' k = i mod nper k" by simp
  have "bmm_hcd pij i (Suc k) nper = Some pij'"
    using pos p(1) by (simp add: bmm_hcd_Suc)
  moreover have "unhcd_value pij' nper (Suc k) = i"
    by (simp add: p(2) k)
  moreover have "\<forall>d < Suc k. pij' d < nper d"
    using p(3) k pos by (auto simp: less_Suc_eq)
  moreover have "\<forall>d \<ge> Suc k. pij' d = pij d"
    using p(4) by auto
  ultimately show ?case by blast
qed

lemma bmm_hcd_repack:
  "\<forall>d < k. ij d < nper d \<Longrightarrow>
     \<exists>pij'. bmm_hcd pij (unhcd_value ij nper k) k nper = Some pij' \<and>
       (\<forall>d < k. pij' d = ij d) \<and> (\<forall>d \<ge> k. pij' d = pij d)"
proof (induction k arbitrary: pij)
  case 0
  then show ?case by (simp add: bmm_hcd_0)
next
  case (Suc k)
  then have d: "ij k < nper k" and lower: "\<forall>d < k. ij d < nper d" by simp_all
  have m: "(unhcd_value ij nper k * nper k + ij k) mod nper k = ij k"
    using d by simp
  have q: "(unhcd_value ij nper k * nper k + ij k) div nper k = unhcd_value ij nper k"
    using d by simp
  from Suc.IH [OF lower, of "pij(k := ij k)"]
  obtain pij' where p: "bmm_hcd (pij(k := ij k)) (unhcd_value ij nper k) k nper = Some pij'"
    "\<forall>d < k. pij' d = ij d" "\<forall>d \<ge> k. pij' d = (pij(k := ij k)) d"
    by blast
  have "bmm_hcd pij (unhcd_value ij nper (Suc k)) (Suc k) nper = Some pij'"
    using d p(1) by (simp add: bmm_hcd_Suc m q del: div_mult_self3 div_mult_self4)
  moreover have "\<forall>d < Suc k. pij' d = ij d"
    using p(2,3) by (auto simp: less_Suc_eq)
  moreover have "\<forall>d \<ge> Suc k. pij' d = pij d"
    using p(3) by auto
  ultimately show ?case by blast
qed

text \<open>
  C6, amended. For an index type of width \<open>w\<close>, every dimension count and all extents:
  an index \<open>i\<close> of the type below the product of the extents is unpacked by \<^verbatim>\<open>bmm_hcd\<close>
  (without a division by zero) and \<^verbatim>\<open>bmm_unhcd\<close> of the result is \<open>i\<close>; and an index
  vector componentwise below the extents is packed and unpacked to itself provided the
  product of the extents is at most \<open>2 ^ w\<close>, so that \<^verbatim>\<open>bmm_unhcd\<close> does not wrap around.
\<close>

theorem bmm_hcd_unhcd_roundtrip:
  "(i < 2 ^ w \<and> i < (\<Prod>d < ndim. nper d) \<longrightarrow>
       (\<exists>pij'. bmm_hcd pij i ndim nper = Some pij' \<and> bmm_unhcd w pij' ndim nper = i)) \<and>
   ((\<forall>d < ndim. ij d < nper d) \<and> (\<Prod>d < ndim. nper d) \<le> 2 ^ w \<longrightarrow>
       (\<exists>pij'. bmm_hcd pij (bmm_unhcd w ij ndim nper) ndim nper = Some pij' \<and>
          (\<forall>d < ndim. pij' d = ij d)))"
proof (intro conjI impI)
  assume a: "i < 2 ^ w \<and> i < (\<Prod>d < ndim. nper d)"
  with bmm_hcd_unpack [where i = i and k = ndim and nper = nper and pij = pij]
  obtain pij' where "bmm_hcd pij i ndim nper = Some pij'" "unhcd_value pij' nper ndim = i"
    by blast
  with a show "\<exists>pij'. bmm_hcd pij i ndim nper = Some pij' \<and> bmm_unhcd w pij' ndim nper = i"
    by (simp add: bmm_unhcd_mod)
next
  assume a: "(\<forall>d < ndim. ij d < nper d) \<and> (\<Prod>d < ndim. nper d) \<le> 2 ^ w"
  then have "unhcd_value ij nper ndim < 2 ^ w"
    using unhcd_value_less [where k = ndim and ij = ij and nper = nper] by simp
  then have "bmm_unhcd w ij ndim nper = unhcd_value ij nper ndim"
    by (simp add: bmm_unhcd_mod)
  with bmm_hcd_repack [where k = ndim and ij = ij and nper = nper and pij = pij] a
  show "\<exists>pij'. bmm_hcd pij (bmm_unhcd w ij ndim nper) ndim nper = Some pij' \<and>
        (\<forall>d < ndim. pij' d = ij d)"
    by auto
qed

theorem bmm_hcd_unhcd_roundtrip_witness:
  "(17::nat) < 2 ^ 64 \<and> 17 < (\<Prod>d < 2. nper_test d) \<and>
   bmm_hcd (\<lambda>_. 0) 17 2 nper_test = Some ((\<lambda>_. 0)(0 := 3, 1 := 2)) \<and>
   bmm_unhcd 64 ((\<lambda>_. 0)(0 := 3, 1 := 2)) 2 nper_test = 17 \<and>
   ((\<lambda>_. 0)(0 := 3, 1 := 2)) 0 < nper_test 0 \<and>
   ((\<lambda>_. 0)(0 := 3, 1 := 2)) 1 < nper_test 1 \<and>
   (\<Prod>d < 2. nper_test d) \<le> 2 ^ 64 \<and>
   bmm_hcd (\<lambda>_. 0) (bmm_unhcd 64 ((\<lambda>_. 0)(0 := 3, 1 := 2)) 2 nper_test) 2 nper_test
     = Some ((\<lambda>_. 0)(0 := 3, 1 := 2))"
proof -
  have e: "bmm_hcd (\<lambda>_. 0) 17 2 nper_test = Some ((\<lambda>_. 0)(0 := 3, 1 := 2))"
    "bmm_unhcd 64 ((\<lambda>_. 0)(0 := 3, 1 := 2)) 2 nper_test = 17"
    "(\<Prod>d < 2. nper_test d) = 30"
    by (simp_all add: bmm_hcd_def bmm_unhcd_def hcd_step_def bmm_quot_uint_def nper_test_def
        upt_2 lessThan_2 fun_upd_twist)
  from bmm_hcd_unhcd_roundtrip [where i = 17 and w = 64 and ndim = 2 and nper = nper_test
      and pij = "\<lambda>_. 0" and ij = "(\<lambda>_. 0)(0 := 3, 1 := 2)"]
  show ?thesis
    by (simp add: e) (simp add: nper_test_def)
qed

text \<open>
  C6 as stated, for every extent vector, fails when the product of the extents exceeds the
  index type: with extents \<open>(4, 2 ^ 63)\<close> the index vector \<open>(3, 0)\<close> is packed by the
  \<^verbatim>\<open>size_t\<close> instantiation to \<open>3 * 2 ^ 63 mod 2 ^ 64 = 2 ^ 63\<close>, which unpacks to \<open>(1, 0)\<close>.
\<close>

theorem bmm_hcd_unhcd_overflow:
  "((\<lambda>_. 0)(0 := 3)) 0 < nper_wide 0 \<and>
   ((\<lambda>_. 0)(0 := 3)) 1 < nper_wide 1 \<and>
   bmm_unhcd 64 ((\<lambda>_. 0)(0 := 3)) 2 nper_wide = 2 ^ 63 \<and>
   bmm_hcd (\<lambda>_. 0) (bmm_unhcd 64 ((\<lambda>_. 0)(0 := 3)) 2 nper_wide) 2 nper_wide
     = Some ((\<lambda>_. 0)(0 := 1))"
  by (auto simp: bmm_hcd_def bmm_unhcd_def hcd_step_def bmm_quot_uint_def nper_wide_def upt_2
      fun_eq_iff)

section \<open>Properties of the modular wrap\<close>

lemma sint_ok_mono: "w \<le> w' \<Longrightarrow> sint_ok w v \<Longrightarrow> sint_ok w' v"
proof -
  assume le: "w \<le> w'" and ok: "sint_ok w v"
  have "(2::int) ^ (w - 1) \<le> 2 ^ (w' - 1)"
    using le by (intro power_increasing) simp_all
  with ok show ?thesis unfolding sint_ok_def by linarith
qed

lemma arith_Some: "sint_ok w v \<Longrightarrow> arith w v = Some v"
  using sint_ok_mono [of w "promoted w" v]
  by (simp add: arith_def sint_chk_def promoted_def)

lemma arith_A_Some: "sint_ok w v \<Longrightarrow> arith_A w v = Some v"
  by (simp add: arith_A_def arith_Some sint_chk_def)

lemma sint_ok_between:
  "sint_ok w lo \<Longrightarrow> sint_ok w hi \<Longrightarrow> lo \<le> v \<Longrightarrow> v \<le> hi \<Longrightarrow> sint_ok w v"
  by (auto simp: sint_ok_def)

lemma sint_ok_0: "sint_ok w 0"
  by (simp add: sint_ok_def)

lemma bmm_quot_sint_pos:
  assumes x: "sint_ok w x" and c: "sint_ok w c" and pos: "0 < c"
  shows "bmm_quot_sint w x c = Some (x div c, x mod c)"
proof -
  define e :: int where "e = of_bool (x < 0 \<and> \<not> c dvd x)"
  have sg: "(sgn x \<noteq> sgn c \<and> \<not> c dvd x) \<longleftrightarrow> (x < 0 \<and> \<not> c dvd x)"
  proof (cases "x < 0")
    case True
    then show ?thesis using pos by simp
  next
    case False
    show ?thesis
    proof (cases "x = 0")
      case True
      then show ?thesis by simp
    next
      case False
      with \<open>\<not> x < 0\<close> have "0 < x" by simp
      then show ?thesis using pos by simp
    qed
  qed
  have q: "x sdiv c = x div c + e"
    unfolding signed_divide_int_eq_divide_int [of x c] sg e_def using pos by simp
  have r: "x smod c = x mod c - c * e"
    unfolding signed_modulo_int_eq_modulo_int [of x c] sg e_def by simp
  have m: "0 \<le> x mod c" "x mod c < c" using pos by simp_all
  have d_ok: "sint_ok w (x div c)"
  proof (cases "0 \<le> x")
    case True
    then have "0 \<le> x div c" "x div c \<le> x"
      using pos zdiv_mono2 [of x 1 c] by (simp_all add: pos_imp_zdiv_nonneg_iff)
    with x show ?thesis by (intro sint_ok_between [OF sint_ok_0 x]) simp_all
  next
    case False
    then have "x div c < 0" using pos by (simp add: pos_imp_zdiv_neg_iff)
    moreover have "x \<le> x div c"
    proof -
      have "x div c * c + x mod c = x" by simp
      moreover have "(x div c + 1) * c \<le> (x div c + 1) * 1"
        using \<open>x div c < 0\<close> pos by (intro mult_left_mono_neg) simp_all
      then have "x div c * c + c \<le> x div c + 1"
        by (simp add: algebra_simps)
      ultimately show ?thesis using m by linarith
    qed
    ultimately show ?thesis by (intro sint_ok_between [OF x sint_ok_0]) simp_all
  qed
  have q_ok: "sint_ok w (x sdiv c)"
  proof (cases "x < 0 \<and> \<not> c dvd x")
    case True
    then have "x div c < 0" using pos by (simp add: pos_imp_zdiv_neg_iff)
    then have "x div c \<le> x div c + e \<and> x div c + e \<le> 0"
      using True by (simp add: e_def)
    then show ?thesis unfolding q by (intro sint_ok_between [OF d_ok sint_ok_0]) simp_all
  next
    case False
    then have "e = 0" by (auto simp: e_def)
    then show ?thesis unfolding q using d_ok by simp
  qed
  have c_lo: "sint_ok w (- c + 1)"
    using c pos by (auto simp: sint_ok_def)
  have m0: "1 \<le> x mod c" if "\<not> c dvd x"
    using that m by (simp add: dvd_eq_mod_eq_0 order_less_le)
  have r_ok: "sint_ok w (x smod c)"
    unfolding r using m m0 by (intro sint_ok_between [OF c_lo c]) (auto simp: e_def)
  have mod_ok: "sint_ok w (x mod c)"
    using m by (intro sint_ok_between [OF sint_ok_0 c]) simp_all
  show ?thesis
  proof (cases "x < 0 \<and> \<not> c dvd x")
    case True
    then have e1: "e = 1" by (simp add: e_def)
    have neg: "\<not> 0 \<le> x smod c" unfolding r e1 using m by simp
    have "bmm_quot_sint w x c = do {
        quot \<leftarrow> arith_A w (x sdiv c - 1);
        sy \<leftarrow> arith w (1 * c);
        rem \<leftarrow> arith_A w (x smod c + sy);
        Some (quot, rem) }"
      using pos neg by (simp add: bmm_quot_sint_def arith_A_Some q_ok r_ok Let_def)
    also have "x sdiv c - 1 = x div c" by (simp add: q e1)
    also have "arith w (1 * c) = Some c" using c by (simp add: arith_Some)
    finally show ?thesis
      using d_ok mod_ok by (simp add: arith_A_Some r e1)
  next
    case False
    then have e0: "e = 0" by (auto simp: e_def)
    have nonneg: "0 \<le> x smod c" unfolding r e0 using m by simp
    have "bmm_quot_sint w x c = do {
        quot \<leftarrow> arith_A w (x sdiv c - 0);
        sy \<leftarrow> arith w (0 * c);
        rem \<leftarrow> arith_A w (x smod c + sy);
        Some (quot, rem) }"
      using pos nonneg by (simp add: bmm_quot_sint_def arith_A_Some q_ok r_ok Let_def)
    then show ?thesis
      using d_ok mod_ok by (simp add: arith_A_Some arith_Some sint_ok_0 q r e0)
  qed
qed

lemma wrap_up_correct:
  assumes "0 < c" and "a + c \<le> 2 ^ 63"
  shows "y < a \<Longrightarrow> - (2 ^ 63) \<le> y \<Longrightarrow>
     \<exists>y'. wrap_up y a c = Some y' \<and> a \<le> y' \<and> y' < a + c \<and> (y' - y) mod c = 0"
proof (induction "nat (a - y)" arbitrary: y rule: less_induct)
  case less
  have ok: "sint_ok 64 (y + c)"
    using less.prems assms by (simp add: sint_ok_def)
  show ?case
  proof (cases "y + c < a")
    case True
    have "nat (a - (y + c)) < nat (a - y)" using True assms(1) by simp
    from less.hyps [OF this True] less.prems assms(1)
    obtain y' where y': "wrap_up (y + c) a c = Some y'" "a \<le> y'" "y' < a + c"
      "(y' - (y + c)) mod c = 0"
      by auto
    have "(y' - y) mod c = (y' - (y + c) + c) mod c" by simp
    also have "\<dots> = 0" using y'(4) by (simp only: mod_add_self2)
    finally have "(y' - y) mod c = 0" .
    moreover have "wrap_up y a c = Some y'"
      using True ok y'(1) by (subst wrap_up.simps) (simp add: sint_chk_def)
    ultimately show ?thesis using y'(2,3) by simp
  next
    case False
    have "wrap_up y a c = Some (y + c)"
      using False ok by (subst wrap_up.simps) (simp add: sint_chk_def)
    then show ?thesis using False less.prems by simp
  qed
qed

lemma wrap_down_correct:
  assumes "0 < c" and "- (2 ^ 63) \<le> b - c"
  shows "b \<le> y \<Longrightarrow> y < 2 ^ 63 \<Longrightarrow>
     \<exists>y'. wrap_down y b c = Some y' \<and> b - c \<le> y' \<and> y' < b \<and> (y' - y) mod c = 0"
proof (induction "nat (y - b)" arbitrary: y rule: less_induct)
  case less
  have ok: "sint_ok 64 (y - c)"
    using less.prems assms by (simp add: sint_ok_def)
  show ?case
  proof (cases "y - c \<ge> b")
    case True
    have "nat (y - c - b) < nat (y - b)" using True assms(1) by simp
    from less.hyps [OF this True] less.prems assms(1)
    obtain y' where y': "wrap_down (y - c) b c = Some y'" "b - c \<le> y'" "y' < b"
      "(y' - (y - c)) mod c = 0"
      by auto
    have "(y' - y) mod c = (y' - (y - c) - c) mod c" by simp
    also have "\<dots> = 0" using y'(4) by (simp only: mod_diff_right_eq [symmetric, of _ c c]) simp
    finally have "(y' - y) mod c = 0" .
    moreover have "wrap_down y b c = Some y'"
      using True ok y'(1) by (subst wrap_down.simps) (simp add: sint_chk_def)
    ultimately show ?thesis using y'(2,3) by simp
  next
    case False
    have "wrap_down y b c = Some (y - c)"
      using False ok by (subst wrap_down.simps) (simp add: sint_chk_def)
    then show ?thesis using False less.prems by simp
  qed
qed

lemma wrap_residues:
  fixes x a c :: int
  assumes "0 < c"
  defines "t \<equiv> (if x mod c \<ge> a mod c then x mod c - a mod c else c - (a mod c - x mod c))"
  shows "0 \<le> t" and "t < c" and "(t + a - x) mod c = 0"
proof -
  have m: "0 \<le> x mod c" "x mod c < c" "0 \<le> a mod c" "a mod c < c"
    using assms(1) by simp_all
  show "0 \<le> t"
  proof (cases "a mod c \<le> x mod c")
    case True
    then have "t = x mod c - a mod c" by (simp add: t_def)
    then show ?thesis using True by linarith
  next
    case False
    then have "t = c - (a mod c - x mod c)" by (simp add: t_def)
    then show ?thesis using m by linarith
  qed
  show "t < c"
  proof (cases "a mod c \<le> x mod c")
    case True
    then have "t = x mod c - a mod c" by (simp add: t_def)
    then show ?thesis using m by linarith
  next
    case False
    then have "t = c - (a mod c - x mod c)" by (simp add: t_def)
    then show ?thesis using False by linarith
  qed
  have x: "x = c * (x div c) + x mod c" and a: "a = c * (a div c) + a mod c" by simp_all
  have "t + a - x = c * (a div c - x div c) \<or> t + a - x = c * (a div c - x div c + 1)"
  proof (cases "x mod c \<ge> a mod c")
    case True
    then have "t + a - x = (x mod c - x) - (a mod c - a)" by (simp add: t_def)
    also have "\<dots> = c * (a div c - x div c)"
      by (simp add: minus_mod_eq_mult_div [symmetric] algebra_simps)
    finally show ?thesis by simp
  next
    case False
    then have "t + a - x = (x mod c - x) - (a mod c - a) + c" by (simp add: t_def)
    also have "\<dots> = c * (a div c - x div c + 1)"
      by (simp add: minus_mod_eq_mult_div [symmetric] algebra_simps)
    finally show ?thesis by simp
  qed
  then show "(t + a - x) mod c = 0" by auto
qed

text \<open>
  At every width, bounds of the same sign are handled by the remainders of \<open>x\<close> and \<open>a\<close>,
  and nothing overflows.
\<close>

lemma bmm_wrap_sint_same_sign:
  assumes x: "sint_ok w x" and a: "sint_ok w a" and b: "sint_ok w b" and lt: "a < b"
    and sg: "bmm_sgn a = bmm_sgn b"
  shows "\<exists>y. bmm_wrap_sint w x a b = Some y \<and> a \<le> y \<and> y < b \<and> (y - x) mod (b - a) = 0"
proof -
  define c where "c = b - a"
  define t where "t = (if x mod c \<ge> a mod c then x mod c - a mod c else c - (a mod c - x mod c))"
  have pos: "0 < c" using lt by (simp add: c_def)
  have same: "(0 < a \<and> 0 < b) \<or> (a < 0 \<and> b < 0)"
    using sg lt by (auto simp: bmm_sgn_def split: if_splits)
  have c_ok: "sint_ok w c"
    using same a b lt unfolding c_def sint_ok_def by auto
  have res: "0 \<le> t" "t < c" "(t + a - x) mod c = 0"
    unfolding t_def by (rule wrap_residues [OF pos])+
  have m: "0 \<le> x mod c" "x mod c < c" "0 \<le> a mod c" "a mod c < c"
    using pos by simp_all
  have small: "sint_ok w v" if "0 \<le> v" "v \<le> c" for v
    using that by (intro sint_ok_between [OF sint_ok_0 c_ok]) simp_all
  have t_eval: "(if x mod c \<ge> a mod c then arith w (x mod c - a mod c)
        else do { u \<leftarrow> arith w (a mod c - x mod c); arith w (c - u) }) = Some t"
  proof (cases "x mod c \<ge> a mod c")
    case True
    have "sint_ok w (x mod c - a mod c)" using True m by (intro small) linarith+
    then show ?thesis using True by (simp add: t_def arith_Some)
  next
    case False
    have "sint_ok w (a mod c - x mod c)" using False m by (intro small) linarith+
    moreover have "sint_ok w (c - (a mod c - x mod c))" using False m by (intro small) linarith+
    ultimately show ?thesis using False by (simp add: t_def arith_Some)
  qed
  have r_ok: "sint_ok w (t + a)"
    using res(1,2) by (intro sint_ok_between [OF a b]) (simp_all add: c_def)
  have "bmm_wrap_sint w x a b = Some (t + a)"
    using lt sg
    by (simp add: bmm_wrap_sint_def c_def [symmetric] arith_A_Some c_ok
        bmm_quot_sint_pos [OF x c_ok pos] bmm_quot_sint_pos [OF a c_ok pos] t_eval r_ok)
  moreover have "a \<le> t + a" "t + a < b" using res(1,2) by (simp_all add: c_def)
  moreover have "(t + a - x) mod (b - a) = 0" using res(3) by (simp add: c_def)
  ultimately show ?thesis by (intro exI [of _ "t + a"]) simp
qed

text \<open>
  For a signed type narrower than \<^verbatim>\<open>int\<close> (\<^verbatim>\<open>signed char\<close>, the instantiation that tests.c
  runs) \<^verbatim>\<open>bmm_wrap\<close> returns, without any overflow, the value of \<open>[a, b)\<close> congruent to
  \<open>x\<close> modulo \<open>b - a\<close>.
\<close>

lemma bmm_wrap_sint_narrow:
  assumes x: "sint_ok w x" and a: "sint_ok w a" and b: "sint_ok w b" and lt: "a < b"
    and w: "0 < w" "w < 32"
  shows "\<exists>y. bmm_wrap_sint w x a b = Some y \<and> a \<le> y \<and> y < b \<and> (y - x) mod (b - a) = 0"
proof (cases "bmm_sgn a = bmm_sgn b")
  case True
  then show ?thesis by (rule bmm_wrap_sint_same_sign [OF x a b lt])
next
  case False
  define c where "c = b - a"
  have pos: "0 < c" using lt by (simp add: c_def)
  have p31: "(2::int) ^ (w - 1) \<le> 2 ^ 30"
    using w by (intro power_increasing) simp_all
  have bnd: "- (2 ^ 30) \<le> x" "x < 2 ^ 30" "- (2 ^ 30) \<le> a" "a < 2 ^ 30"
    "- (2 ^ 30) \<le> b" "b < 2 ^ 30"
    using x a b p31 unfolding sint_ok_def by linarith+
  have "promoted w = 32" using w by (simp add: promoted_def)
  then have c_ok: "arith w c = Some c"
    using bnd by (simp add: arith_def sint_chk_def sint_ok_def c_def)
  have fin: "sint_chk w y = Some y" if "a \<le> y" "y < b" for y
    using that sint_ok_between [OF a b, of y] by (simp add: sint_chk_def)
  consider (below) "x < a" | (above) "b \<le> x" | (inside) "a \<le> x" "x < b"
    by linarith
  then show ?thesis
  proof cases
    case below
    have "a + c \<le> 2 ^ 63" "- (2 ^ 63) \<le> x" using bnd by (simp_all add: c_def)
    from wrap_up_correct [OF pos this(1) below this(2)]
    obtain y where y: "wrap_up x a c = Some y" "a \<le> y" "y < a + c" "(y - x) mod c = 0"
      by auto
    then have "y < b" by (simp add: c_def)
    have "bmm_wrap_sint w x a b = Some y"
      using lt False below y(1) fin [OF y(2) \<open>y < b\<close>]
      by (simp add: bmm_wrap_sint_def c_def [symmetric] c_ok)
    with y \<open>y < b\<close> show ?thesis by (simp add: c_def)
  next
    case above
    have "- (2 ^ 63) \<le> b - c" "x < 2 ^ 63" using bnd by (simp_all add: c_def)
    from wrap_down_correct [OF pos this(1) above this(2)]
    obtain y where y: "wrap_down x b c = Some y" "b - c \<le> y" "y < b" "(y - x) mod c = 0"
      by auto
    then have "a \<le> y" by (simp add: c_def)
    have "bmm_wrap_sint w x a b = Some y"
      using lt False above y(1) fin [OF \<open>a \<le> y\<close> y(3)]
      by (simp add: bmm_wrap_sint_def c_def [symmetric] c_ok)
    with y \<open>a \<le> y\<close> show ?thesis by (simp add: c_def)
  next
    case inside
    have "bmm_wrap_sint w x a b = Some x"
      using lt False inside fin [OF inside]
      by (simp add: bmm_wrap_sint_def c_def [symmetric] c_ok)
    with inside show ?thesis by simp
  qed
qed

lemma uint_ops_small:
  "y \<le> x \<Longrightarrow> x < 2 ^ w \<Longrightarrow> uint_sub w x y = x - y"
  "x + y < 2 ^ w \<Longrightarrow> uint_add w x y = x + y"
proof -
  assume le: "y \<le> x" and lt: "x < 2 ^ w"
  have e: "x + 2 ^ w - y = (x - y) + 2 ^ w" using le by simp
  have l: "x - y < 2 ^ w" using lt by simp
  have m: "y mod 2 ^ w = y" using le lt by simp
  show "uint_sub w x y = x - y"
    unfolding uint_sub_def m e by (simp only: mod_add_self2 mod_less l)
next
  assume "x + y < 2 ^ w"
  then show "uint_add w x y = x + y" by (simp add: uint_add_def)
qed

text \<open>
  For every unsigned width \<^verbatim>\<open>bmm_wrap\<close> returns the value of \<open>[a, b)\<close> congruent to \<open>x\<close>
  modulo \<open>b - a\<close>, and no sum or difference in it wraps around: the result is the one of
  unbounded arithmetic.
\<close>

lemma bmm_wrap_uint_correct:
  assumes x: "x < 2 ^ w" and b: "b < 2 ^ w" and lt: "a < b"
  shows "\<exists>y. bmm_wrap_uint w x a b = Some y \<and> a \<le> y \<and> y < b \<and>
     y mod (b - a) = x mod (b - a) \<and>
     y = (if x mod (b - a) \<ge> a mod (b - a) then x mod (b - a) - a mod (b - a)
          else (b - a) - (a mod (b - a) - x mod (b - a))) + a"
proof -
  define c where "c = b - a"
  define r where "r = x mod c"
  define s where "s = a mod c"
  define t where "t = (if r \<ge> s then r - s else c - (s - r))"
  have pos: "0 < c" using lt by (simp add: c_def)
  have c: "uint_sub w b a = c" using lt b by (simp add: uint_ops_small c_def)
  have rs: "r < c" "s < c" using pos by (simp_all add: r_def s_def)
  have cw: "c < 2 ^ w" using b by (simp add: c_def)
  have t: "(if r \<ge> s then uint_sub w r s else uint_sub w c (uint_sub w s r)) = t"
  proof (cases "r \<ge> s")
    case True
    then have "uint_sub w r s = r - s" using rs cw by (intro uint_ops_small) simp_all
    then show ?thesis using True by (simp add: t_def)
  next
    case False
    then have "uint_sub w s r = s - r" using rs cw by (intro uint_ops_small) simp_all
    moreover have "uint_sub w c (s - r) = c - (s - r)"
      using rs cw by (intro uint_ops_small) simp_all
    ultimately show ?thesis using False by (simp add: t_def)
  qed
  have tc: "t < c" using rs by (auto simp: t_def)
  then have "t + a < b" using lt by (simp add: c_def)
  then have add: "uint_add w t a = t + a" using b by (simp add: uint_ops_small)
  have "bmm_wrap_uint w x a b =
      Some (uint_add w (if r \<ge> s then uint_sub w r s else uint_sub w c (uint_sub w s r)) a)"
    using lt by (simp add: bmm_wrap_uint_def c Let_def r_def s_def)
  then have eval: "bmm_wrap_uint w x a b = Some (t + a)"
    unfolding t add .
  have a: "a = c * (a div c) + s" by (simp add: s_def)
  have "(t + a) mod c = r"
  proof (cases "r \<ge> s")
    case True
    then have "t + a = r + c * (a div c)" using a by (simp add: t_def)
    then show ?thesis using rs by simp
  next
    case False
    then have "t + a = r + c * (a div c + 1)" using a rs by (simp add: t_def algebra_simps)
    then show ?thesis using rs by (simp del: mult_Suc_right)
  qed
  with eval \<open>t + a < b\<close> show ?thesis
    by (simp add: c_def [symmetric] r_def [symmetric] s_def [symmetric] t_def)
qed

text \<open>
  C5 fails for the \<^verbatim>\<open>int\<close> instantiation of common_sint.h when the bounds differ in sign and
  are far apart: \<^verbatim>\<open>long long int const c = b - a\<close> subtracts in \<^verbatim>\<open>int\<close> before it widens, so
  \<^verbatim>\<open>bmm_wrap(INT_MAX, INT_MIN, INT_MAX)\<close> and \<^verbatim>\<open>bmm_wrap(0, INT_MIN, 1)\<close> overflow, against
  the function's comment that overflows are impossible.
\<close>

theorem bmm_wrap_int_overflow:
  "sint_ok 32 (2 ^ 31 - 1) \<and> sint_ok 32 (- (2 ^ 31)) \<and>
   bmm_wrap_sint 32 (2 ^ 31 - 1) (- (2 ^ 31)) (2 ^ 31 - 1) = None \<and>
   bmm_wrap_sint 32 0 (- (2 ^ 31)) 1 = None"
  by (simp add: bmm_wrap_sint_def bmm_sgn_def arith_def sint_chk_def sint_ok_def promoted_def)

section \<open>Cache rebuild\<close>

lemma loop_while_snoc:
  "loop_while body (xs @ [x]) s =
     (case loop_while body xs s of (True, s') \<Rightarrow> body x s' | (False, s') \<Rightarrow> (False, s'))"
  by (induction xs arbitrary: s) (auto split: prod.splits bool.splits)

lemma set_neigh_fields [simp]:
  "dem_opts (set_neigh dem X) = dem_opts dem"
  "dem_part (set_neigh dem X) = dem_part dem"
  "cache_neigh (dem_cache (set_neigh dem X)) = X"
  "cache_part (dem_cache (set_neigh dem X)) = cache_part (dem_cache dem)"
  "cache_x (dem_cache (set_neigh dem X)) = cache_x (dem_cache dem)"
  "cache_ijcell (dem_cache (set_neigh dem X)) = cache_ijcell (dem_cache dem)"
  "cache_icell (dem_cache (set_neigh dem X)) = cache_icell (dem_cache dem)"
  "set_neigh (set_neigh dem X) Y = set_neigh dem Y"
  "set_neigh dem (cache_neigh (dem_cache dem)) = dem"
  by (simp_all add: set_neigh_def)

lemma eligible_set_neigh [simp]:
  "bmm_dem_cache_eligible (set_neigh dem X) = bmm_dem_cache_eligible dem"
  by (simp add: bmm_dem_cache_eligible_def fun_eq_iff)

lemma neigh_cells_set_neigh [simp]: "neigh_cells (set_neigh dem X) = neigh_cells dem"
  by (simp add: neigh_cells_def fun_eq_iff)

lemma neigh_found_set_neigh [simp]: "neigh_found (set_neigh dem X) = neigh_found dem"
  by (simp add: neigh_found_def fun_eq_iff)

lemma addfrom_candidate_set_neigh:
  "addfrom_candidate NGROUP ipart jpart (set_neigh dem X) =
     (if bmm_dem_cache_eligible dem ipart jpart then
        if length (X ipart) \<ge> neigh_capacity NGROUP then (False, set_neigh dem X)
        else (True, set_neigh dem (X(ipart := X ipart @ [jpart])))
      else (True, set_neigh dem X))"
  by (simp add: addfrom_candidate_def) (simp add: set_neigh_def)

lemma addfrom_group_result:
  "loop_while (addfrom_candidate NGROUP ipart) js (set_neigh dem X) = (True, dem') \<Longrightarrow>
     dem' = set_neigh dem (X(ipart := X ipart @ filter (bmm_dem_cache_eligible dem ipart) js))"
proof (induction js arbitrary: X)
  case Nil
  then show ?case by simp
next
  case (Cons jpart js)
  show ?case
  proof (cases "bmm_dem_cache_eligible dem ipart jpart")
    case True
    with Cons.prems have full: "\<not> length (X ipart) \<ge> neigh_capacity NGROUP"
      by (auto simp: addfrom_candidate_set_neigh split: if_splits)
    with Cons.prems True
    have "loop_while (addfrom_candidate NGROUP ipart) js
        (set_neigh dem (X(ipart := X ipart @ [jpart]))) = (True, dem')"
      by (simp add: addfrom_candidate_set_neigh)
    from Cons.IH [OF this] True show ?thesis
      by (simp only: fun_upd_same fun_upd_upd filter.simps if_True append_assoc append.simps)
  next
    case False
    with Cons.prems
    have "loop_while (addfrom_candidate NGROUP ipart) js (set_neigh dem X) = (True, dem')"
      by (simp add: addfrom_candidate_set_neigh)
    from Cons.IH [OF this] False show ?thesis by simp
  qed
qed

lemma addfrom_cells_result:
  "loop_while (\<lambda>ineigh dem.
       let icell = bmm_neigh_icpij (cache_ijcell (dem_cache dem) ipart) ineigh BMM_NDIM
             (opts_cache_ncell (dem_opts dem)) (opts_box_per (dem_opts dem)) msk
       in loop_while (addfrom_candidate NGROUP ipart) (cache_part (dem_cache dem) icell) dem)
     ns (set_neigh dem X) = (True, dem') \<Longrightarrow>
   dem' = set_neigh dem (X(ipart := X ipart @ filter (bmm_dem_cache_eligible dem ipart)
     (concat (map (\<lambda>ineigh. cache_part (dem_cache dem)
        (bmm_neigh_icpij (cache_ijcell (dem_cache dem) ipart) ineigh BMM_NDIM
           (opts_cache_ncell (dem_opts dem)) (opts_box_per (dem_opts dem)) msk)) ns))))"
proof (induction ns arbitrary: X)
  case Nil
  then show ?case by simp
next
  case (Cons ineigh ns)
  let ?js = "cache_part (dem_cache dem)
      (bmm_neigh_icpij (cache_ijcell (dem_cache dem) ipart) ineigh BMM_NDIM
         (opts_cache_ncell (dem_opts dem)) (opts_box_per (dem_opts dem)) msk)"
  obtain ok dem1 where r: "loop_while (addfrom_candidate NGROUP ipart) ?js (set_neigh dem X)
      = (ok, dem1)"
    by (cases "loop_while (addfrom_candidate NGROUP ipart) ?js (set_neigh dem X)")
  with Cons.prems have ok: "ok" by (auto simp: Let_def split: bool.splits)
  have dem1: "dem1 = set_neigh dem
      (X(ipart := X ipart @ filter (bmm_dem_cache_eligible dem ipart) ?js))"
    using r ok by (intro addfrom_group_result) simp
  from Cons.prems r ok
  have "loop_while (\<lambda>ineigh dem.
       let icell = bmm_neigh_icpij (cache_ijcell (dem_cache dem) ipart) ineigh BMM_NDIM
             (opts_cache_ncell (dem_opts dem)) (opts_box_per (dem_opts dem)) msk
       in loop_while (addfrom_candidate NGROUP ipart) (cache_part (dem_cache dem) icell) dem)
     ns dem1 = (True, dem')"
    by (simp add: Let_def)
  from Cons.IH [OF this [unfolded dem1]] show ?case
    by (simp only: fun_upd_same fun_upd_upd list.map concat.simps filter_append append_assoc)
qed

lemma bmm_dem_cache_addfrom_result:
  assumes "bmm_dem_cache_addfrom NGROUP (set_neigh dem X) ipart BMM_NEIGH_MASK_UPPERH = (True, dem')"
  shows "dem' = set_neigh dem (X(ipart := X ipart @ neigh_found dem ipart))"
proof -
  from assms have "loop_while (\<lambda>ineigh dem.
       let icell = bmm_neigh_icpij (cache_ijcell (dem_cache dem) ipart) ineigh BMM_NDIM
             (opts_cache_ncell (dem_opts dem)) (opts_box_per (dem_opts dem)) BMM_NEIGH_MASK_UPPERH
       in loop_while (addfrom_candidate NGROUP ipart) (cache_part (dem_cache dem) icell) dem)
     [0 ..< bmm_neigh_ncpij (cache_ijcell (dem_cache dem) ipart) BMM_NDIM
            (opts_cache_ncell (dem_opts dem)) (opts_box_per (dem_opts dem)) BMM_NEIGH_MASK_UPPERH]
     (set_neigh dem X) = (True, dem')"
    by (simp add: bmm_dem_cache_addfrom_def Let_def)
  from addfrom_cells_result [OF this] show ?thesis
    by (simp add: neigh_found_def neigh_cells_def map_map comp_def)
qed

lemma addfrom_loop_result:
  "loop_while (\<lambda>ipart dem. bmm_dem_cache_addfrom NGROUP dem ipart BMM_NEIGH_MASK_UPPERH)
     [0 ..< k] (set_neigh dem X) = (True, dem') \<Longrightarrow>
   dem' = set_neigh dem (\<lambda>ipart. if ipart < k then X ipart @ neigh_found dem ipart else X ipart)"
proof (induction k arbitrary: dem')
  case 0
  then show ?case by simp
next
  case (Suc k)
  let ?body = "\<lambda>ipart dem. bmm_dem_cache_addfrom NGROUP dem ipart BMM_NEIGH_MASK_UPPERH"
  obtain ok dem1 where r: "loop_while ?body [0 ..< k] (set_neigh dem X) = (ok, dem1)"
    by (cases "loop_while ?body [0 ..< k] (set_neigh dem X)")
  from Suc.prems r have ok: "ok" and step: "?body k dem1 = (True, dem')"
    by (auto simp: loop_while_snoc split: bool.splits)
  have dem1: "dem1 = set_neigh dem
      (\<lambda>ipart. if ipart < k then X ipart @ neigh_found dem ipart else X ipart)"
    using r ok by (intro Suc.IH) simp
  from bmm_dem_cache_addfrom_result [OF step [unfolded dem1]]
  have "dem' = set_neigh dem
      ((\<lambda>ipart. if ipart < k then X ipart @ neigh_found dem ipart else X ipart)
        (k := X k @ neigh_found dem k))"
    by simp
  also have "(\<lambda>ipart. if ipart < k then X ipart @ neigh_found dem ipart else X ipart)
        (k := X k @ neigh_found dem k)
      = (\<lambda>ipart. if ipart < Suc k then X ipart @ neigh_found dem ipart else X ipart)"
    by (auto simp: fun_eq_iff)
  finally show ?case .
qed

lemma fold_proj:
  assumes "\<And>x s. g (f x s) = g s"
  shows "g (fold f xs s) = g s"
  by (induction xs arbitrary: s) (simp_all add: assms)

lemma set_part_fields [simp]:
  "dem_opts (set_part dem P) = dem_opts dem"
  "dem_part (set_part dem P) = dem_part dem"
  "cache_part (dem_cache (set_part dem P)) = P"
  "cache_neigh (dem_cache (set_part dem P)) = cache_neigh (dem_cache dem)"
  "cache_x (dem_cache (set_part dem P)) = cache_x (dem_cache dem)"
  "cache_ijcell (dem_cache (set_part dem P)) = cache_ijcell (dem_cache dem)"
  "cache_icell (dem_cache (set_part dem P)) = cache_icell (dem_cache dem)"
  "set_part (set_part dem P) Q = set_part dem Q"
  by (simp_all add: set_part_def)

lemma bmm_dem_cache_addpart_set_part:
  "bmm_dem_cache_addpart NGROUP (set_part dem P) ipart =
     (if length (P (cache_icell (dem_cache dem) ipart)) \<ge> NGROUP then (False, set_part dem P)
      else (True, set_part dem (P(cache_icell (dem_cache dem) ipart :=
              P (cache_icell (dem_cache dem) ipart) @ [ipart]))))"
  by (simp add: bmm_dem_cache_addpart_def Let_def) (simp add: set_part_def)

lemma addpart_loop_result:
  "loop_while (\<lambda>ipart dem. bmm_dem_cache_addpart NGROUP dem ipart) [0 ..< k] (set_part dem P)
     = (True, dem') \<Longrightarrow>
   dem' = set_part dem
     (\<lambda>icell. P icell @ filter (\<lambda>jpart. cache_icell (dem_cache dem) jpart = icell) [0 ..< k])"
proof (induction k arbitrary: dem')
  case 0
  then show ?case by simp
next
  case (Suc k)
  let ?body = "\<lambda>ipart dem. bmm_dem_cache_addpart NGROUP dem ipart"
  let ?Q = "\<lambda>icell. P icell @ filter (\<lambda>jpart. cache_icell (dem_cache dem) jpart = icell) [0 ..< k]"
  obtain ok dem1 where r: "loop_while ?body [0 ..< k] (set_part dem P) = (ok, dem1)"
    by (cases "loop_while ?body [0 ..< k] (set_part dem P)")
  from Suc.prems r have ok: "ok" and step: "?body k dem1 = (True, dem')"
    by (auto simp: loop_while_snoc split: bool.splits)
  have dem1: "dem1 = set_part dem ?Q"
    using r ok by (intro Suc.IH) simp
  from step [unfolded dem1]
  have "dem' = set_part dem (?Q(cache_icell (dem_cache dem) k :=
      ?Q (cache_icell (dem_cache dem) k) @ [k]))"
    by (auto simp: bmm_dem_cache_addpart_set_part split: if_splits)
  also have "?Q(cache_icell (dem_cache dem) k := ?Q (cache_icell (dem_cache dem) k) @ [k])
      = (\<lambda>icell. P icell @
          filter (\<lambda>jpart. cache_icell (dem_cache dem) jpart = icell) [0 ..< Suc k])"
    by (auto simp: fun_eq_iff)
  finally show ?case .
qed

lemma clrneighs_result:
  "bmm_dem_cache_clrneighs dem =
     set_neigh dem (\<lambda>ipart. if ipart < part_n (dem_part dem) then []
                     else cache_neigh (dem_cache dem) ipart)"
proof -
  define body where
    "body = (\<lambda>ipart dem. set_neigh dem ((cache_neigh (dem_cache dem))(ipart := [])))"
  have "fold body [0 ..< k] dem
      = set_neigh dem (\<lambda>ipart. if ipart < k then [] else cache_neigh (dem_cache dem) ipart)" for k
  proof (induction k)
    case 0
    then show ?case by simp
  next
    case (Suc k)
    have e: "(\<lambda>ipart. if ipart < k then [] else cache_neigh (dem_cache dem) ipart)(k := [])
        = (\<lambda>ipart. if ipart < Suc k then [] else cache_neigh (dem_cache dem) ipart)"
      by (auto simp: fun_eq_iff)
    have "fold body [0 ..< Suc k] dem = body k (fold body [0 ..< k] dem)" by simp
    also have "\<dots> = set_neigh dem
        ((\<lambda>ipart. if ipart < k then [] else cache_neigh (dem_cache dem) ipart)(k := []))"
      unfolding Suc.IH by (simp only: body_def set_neigh_fields)
    finally show ?case unfolding e .
  qed
  then show ?thesis
    by (simp add: bmm_dem_cache_clrneighs_def set_neigh_def body_def)
qed

lemma cache_steps_frame:
  "dem_part (bmm_dem_cache_j dem ipart) = dem_part dem"
  "dem_opts (bmm_dem_cache_j dem ipart) = dem_opts dem"
  "dem_part (bmm_dem_cache_x dem ipart) = dem_part dem"
  "dem_opts (bmm_dem_cache_x dem ipart) = dem_opts dem"
  "dem_part (bmm_dem_cache_ijcell dem ipart) = dem_part dem"
  "dem_opts (bmm_dem_cache_ijcell dem ipart) = dem_opts dem"
  "dem_part (bmm_dem_cache_icell dem ipart) = dem_part dem"
  "dem_opts (bmm_dem_cache_icell dem ipart) = dem_opts dem"
  by (simp_all add: bmm_dem_cache_j_def bmm_dem_cache_x_def bmm_dem_cache_icell_def
      bmm_dem_cache_ijcell_def fold_proj)

lemma build_prepare_frame:
  "dem_part (build_prepare dem) = dem_part dem"
  "dem_opts (build_prepare dem) = dem_opts dem"
  "cache_part (dem_cache (build_prepare dem)) = (\<lambda>icell. [])"
  by (simp_all add: build_prepare_def Let_def bmm_dem_cache_clrparts_def fold_proj
      cache_steps_frame)

lemma build_prepare_set_part:
  "build_prepare dem = set_part (build_prepare dem) (\<lambda>icell. [])"
  by (simp add: build_prepare_def Let_def bmm_dem_cache_clrparts_def set_part_def)

lemma bmm_dem_cache_build_unfold:
  "bmm_dem_cache_build NGROUP dem =
     (case loop_while (\<lambda>ipart dem. bmm_dem_cache_addpart NGROUP dem ipart)
                [0 ..< part_n (dem_part dem)] (build_prepare dem) of
           (False, dem) \<Rightarrow> (False, dem)
         | (True, dem) \<Rightarrow>
             (case loop_while (\<lambda>ipart dem. bmm_dem_cache_addfrom NGROUP dem ipart
                          BMM_NEIGH_MASK_UPPERH) [0 ..< part_n (dem_part dem)]
                     (bmm_dem_cache_clrneighs dem) of
                   (False, dem) \<Rightarrow> (False, dem)
                 | (True, dem) \<Rightarrow> (True, dem\<lparr>dem_cache := (dem_cache dem)\<lparr>cache_stale := False\<rparr>\<rparr>)))"
proof -
  have n: "part_n (dem_part (fold f xs s)) = part_n (dem_part s)"
    if "\<And>x s. dem_part (f x s) = dem_part s" for f :: "nat \<Rightarrow> bmm_dem \<Rightarrow> bmm_dem" and xs s
    using fold_proj [of dem_part f xs s] that by simp
  have c: "part_n (dem_part (bmm_dem_cache_clrneighs s)) = part_n (dem_part s)" for s
    by (simp add: clrneighs_result)
  show ?thesis
    unfolding bmm_dem_cache_build_def build_prepare_def Let_def
    by (simp add: n cache_steps_frame bmm_dem_cache_clrparts_def c
        split: prod.splits bool.splits)
qed

lemma bmm_dem_cache_build_result:
  assumes "bmm_dem_cache_build NGROUP dem = (True, dem')"
  shows "dem_part dem' = dem_part dem" and "dem_opts dem' = dem_opts dem"
    and "\<not> cache_stale (dem_cache dem')"
    and "cache_part (dem_cache dem') =
       (\<lambda>icell. filter (\<lambda>jpart. cache_icell (dem_cache dem') jpart = icell)
          [0 ..< part_n (dem_part dem)])"
    and "\<forall>ipart < part_n (dem_part dem). cache_neigh (dem_cache dem') ipart = neigh_found dem' ipart"
    and "cache_x (dem_cache dem') = cache_x (dem_cache (build_prepare dem))"
    and "cache_ijcell (dem_cache dem') = cache_ijcell (dem_cache (build_prepare dem))"
    and "cache_icell (dem_cache dem') = cache_icell (dem_cache (build_prepare dem))"
proof -
  let ?n = "part_n (dem_part dem)"
  let ?s0 = "build_prepare dem"
  obtain ok1 s1 where r1: "loop_while (\<lambda>ipart dem. bmm_dem_cache_addpart NGROUP dem ipart)
      [0 ..< ?n] ?s0 = (ok1, s1)"
    by (cases "loop_while (\<lambda>ipart dem. bmm_dem_cache_addpart NGROUP dem ipart) [0 ..< ?n] ?s0")
  with assms have ok1: "ok1"
    by (auto simp: bmm_dem_cache_build_unfold split: bool.splits)
  have "loop_while (\<lambda>ipart dem. bmm_dem_cache_addpart NGROUP dem ipart) [0 ..< ?n]
      (set_part ?s0 (\<lambda>icell. [])) = (True, s1)"
    using r1 ok1 build_prepare_set_part [of dem] by simp
  from addpart_loop_result [OF this]
  have s1: "s1 = set_part ?s0
      (\<lambda>icell. filter (\<lambda>jpart. cache_icell (dem_cache ?s0) jpart = icell) [0 ..< ?n])"
    by simp
  have n1: "part_n (dem_part s1) = ?n" by (simp add: s1 build_prepare_frame)
  let ?s2 = "set_neigh s1 (\<lambda>ipart. if ipart < ?n then [] else cache_neigh (dem_cache s1) ipart)"
  obtain ok3 s3 where r3: "loop_while (\<lambda>ipart dem. bmm_dem_cache_addfrom NGROUP dem ipart
      BMM_NEIGH_MASK_UPPERH) [0 ..< ?n] ?s2 = (ok3, s3)"
    by (cases "loop_while (\<lambda>ipart dem. bmm_dem_cache_addfrom NGROUP dem ipart
      BMM_NEIGH_MASK_UPPERH) [0 ..< ?n] ?s2")
  from assms r1 ok1 r3 have ok3: "ok3"
    and dem': "dem' = s3\<lparr>dem_cache := (dem_cache s3)\<lparr>cache_stale := False\<rparr>\<rparr>"
    by (auto simp: bmm_dem_cache_build_unfold clrneighs_result n1 split: bool.splits)
  from addfrom_loop_result [OF r3 [unfolded ok3 [THEN eqTrueI]]]
  have s3: "s3 = set_neigh s1 (\<lambda>ipart. if ipart < ?n
      then (if ipart < ?n then [] else cache_neigh (dem_cache s1) ipart) @ neigh_found s1 ipart
      else (if ipart < ?n then [] else cache_neigh (dem_cache s1) ipart))"
    by simp
  have stale_eligible: "bmm_dem_cache_eligible (s\<lparr>dem_cache := (dem_cache s)\<lparr>cache_stale := b\<rparr>\<rparr>)
      = bmm_dem_cache_eligible s" for s b
    by (simp add: bmm_dem_cache_eligible_def fun_eq_iff)
  have stale_cells: "neigh_cells (s\<lparr>dem_cache := (dem_cache s)\<lparr>cache_stale := b\<rparr>\<rparr>)
      = neigh_cells s" for s b
    by (simp add: neigh_cells_def fun_eq_iff)
  have stale_found: "neigh_found (s\<lparr>dem_cache := (dem_cache s)\<lparr>cache_stale := b\<rparr>\<rparr>)
      = neigh_found s" for s b
    by (simp add: neigh_found_def stale_eligible stale_cells fun_eq_iff)
  show "dem_part dem' = dem_part dem" "dem_opts dem' = dem_opts dem"
    "\<not> cache_stale (dem_cache dem')"
    by (simp_all add: dem' s3 s1 build_prepare_frame)
  show "cache_part (dem_cache dem') =
       (\<lambda>icell. filter (\<lambda>jpart. cache_icell (dem_cache dem') jpart = icell) [0 ..< ?n])"
    by (simp add: dem' s3 s1)
  show "\<forall>ipart < ?n. cache_neigh (dem_cache dem') ipart = neigh_found dem' ipart"
    by (simp add: dem' stale_found) (simp add: s3)
  show "cache_x (dem_cache dem') = cache_x (dem_cache (build_prepare dem))"
    "cache_ijcell (dem_cache dem') = cache_ijcell (dem_cache (build_prepare dem))"
    "cache_icell (dem_cache dem') = cache_icell (dem_cache (build_prepare dem))"
    by (simp_all add: dem' s3 s1)
qed

lemma count_list_filter:
  "count_list (filter P xs) x = (if P x then count_list xs x else 0)"
  by (induction xs) auto

lemma count_list_concat:
  "count_list (concat xss) x = sum_list (map (\<lambda>xs. count_list xs x) xss)"
  by (induction xss) (simp_all add: count_list_append)

lemma count_list_filter_upt:
  "count_list (filter (\<lambda>j. f j = c) [0 ..< n]) j = (if j < n \<and> f j = c then 1 else 0)"
  by (induction n) (auto simp: count_list_append)

lemma sum_list_indicator:
  "sum_list (map (\<lambda>c. if b \<and> d = c then (1::nat) else 0) cs) = (if b then count_list cs d else 0)"
  by (induction cs) auto

lemma neigh_found_count:
  assumes "cache_part (dem_cache dem) =
      (\<lambda>icell. filter (\<lambda>jpart. cache_icell (dem_cache dem) jpart = icell) [0 ..< n])"
  shows "count_list (neigh_found dem ipart) jpart =
     (if jpart < n \<and> bmm_dem_cache_eligible dem ipart jpart
      then count_list (neigh_cells dem ipart) (cache_icell (dem_cache dem) jpart) else 0)"
proof -
  have "count_list (concat (map (cache_part (dem_cache dem)) (neigh_cells dem ipart))) jpart
      = sum_list (map (\<lambda>c. if jpart < n \<and> cache_icell (dem_cache dem) jpart = c then (1::nat) else 0)
          (neigh_cells dem ipart))"
    unfolding count_list_concat map_map comp_def assms count_list_filter_upt by (rule refl)
  also have "\<dots> = (if jpart < n
      then count_list (neigh_cells dem ipart) (cache_icell (dem_cache dem) jpart) else 0)"
    by (rule sum_list_indicator)
  finally show ?thesis
    unfolding neigh_found_def count_list_filter by simp
qed

lemma fold_proj_upt:
  assumes "\<And>i s. i < k \<Longrightarrow> p (f i s) = p s"
  shows "p (fold f [0 ..< k] s) = p s"
  using assms by (induction k) simp_all

lemma fold_upt_field:
  assumes upd: "\<And>i s. g (f i s) = (g s)(i := h s i)"
    and inv: "\<And>i j s. i \<noteq> j \<Longrightarrow> h (f i s) j = h s j"
  shows "g (fold f [0 ..< k] s) = (\<lambda>i. if i < k then h s i else g s i)"
proof (induction k)
  case 0
  then show ?case by simp
next
  case (Suc k)
  have hk: "h (fold f [0 ..< k] s) k = h s k"
    by (rule fold_proj_upt [where p = "\<lambda>s. h s k"]) (simp add: inv)
  have "g (fold f [0 ..< Suc k] s) = (g (fold f [0 ..< k] s))(k := h (fold f [0 ..< k] s) k)"
    by (simp add: upd)
  then show ?case
    unfolding Suc.IH hk by (auto simp: fun_eq_iff)
qed

lemma ijcell_of_cong:
  assumes "dem_opts a = dem_opts b"
    and "cache_x (dem_cache a) ipart idim = cache_x (dem_cache b) ipart idim"
  shows "ijcell_of a ipart idim = ijcell_of b ipart idim"
  by (simp add: ijcell_of_def assms)

lemma bmm_dem_cache_ijcell_fields:
  "dem_opts (bmm_dem_cache_ijcell dem ipart) = dem_opts dem"
  "dem_part (bmm_dem_cache_ijcell dem ipart) = dem_part dem"
  "cache_x (dem_cache (bmm_dem_cache_ijcell dem ipart)) = cache_x (dem_cache dem)"
  "cache_ijcell (dem_cache (bmm_dem_cache_ijcell dem ipart)) =
     (cache_ijcell (dem_cache dem))(ipart := (\<lambda>idim. if idim < BMM_NDIM
        then ijcell_of dem ipart idim else cache_ijcell (dem_cache dem) ipart idim))"
  by (auto simp: bmm_dem_cache_ijcell_def BMM_NDIM_def upt_2 ijcell_of_def fun_eq_iff
      less_Suc_eq numeral_2_eq_2)

lemma prepare_cache_x:
  "cache_x (dem_cache (fold (\<lambda>ipart dem. bmm_dem_cache_x dem ipart) [0 ..< k] dem)) =
     (\<lambda>ipart. if ipart < k
        then copy_upto BMM_NDIM (cache_x (dem_cache dem) ipart) (part_x (dem_part dem) ipart)
        else cache_x (dem_cache dem) ipart)"
  by (rule fold_upt_field [where g = "\<lambda>s. cache_x (dem_cache s)"
        and h = "\<lambda>s ipart. copy_upto BMM_NDIM (cache_x (dem_cache s) ipart)
          (part_x (dem_part s) ipart)"])
    (simp_all add: bmm_dem_cache_x_def)

lemma prepare_cache_ijcell:
  "cache_ijcell (dem_cache (fold (\<lambda>ipart dem. bmm_dem_cache_ijcell dem ipart) [0 ..< k] dem)) =
     (\<lambda>ipart. if ipart < k
        then (\<lambda>idim. if idim < BMM_NDIM
          then ijcell_of dem ipart idim else cache_ijcell (dem_cache dem) ipart idim)
        else cache_ijcell (dem_cache dem) ipart)"
  by (rule fold_upt_field [where g = "\<lambda>s. cache_ijcell (dem_cache s)"
        and h = "\<lambda>s ipart idim. if idim < BMM_NDIM
          then ijcell_of s ipart idim else cache_ijcell (dem_cache s) ipart idim"])
    (simp_all add: bmm_dem_cache_ijcell_fields fun_eq_iff
      ijcell_of_cong [where a = "bmm_dem_cache_ijcell s i" and b = s for s i])

lemma prepare_cache_icell:
  "cache_icell (dem_cache (fold (\<lambda>ipart dem. bmm_dem_cache_icell dem ipart) [0 ..< k] dem)) =
     (\<lambda>ipart. if ipart < k
        then bmm_unhcd 64 (cache_ijcell (dem_cache dem) ipart) BMM_NDIM
          (opts_cache_ncell (dem_opts dem))
        else cache_icell (dem_cache dem) ipart)"
  by (rule fold_upt_field [where g = "\<lambda>s. cache_icell (dem_cache s)"
        and h = "\<lambda>s ipart. bmm_unhcd 64 (cache_ijcell (dem_cache s) ipart) BMM_NDIM
          (opts_cache_ncell (dem_opts s))"])
    (simp_all add: bmm_dem_cache_icell_def)

lemma build_prepare_cache:
  assumes "ipart < part_n (dem_part dem)"
  shows "idim < BMM_NDIM \<Longrightarrow>
      cache_x (dem_cache (build_prepare dem)) ipart idim = part_x (dem_part dem) ipart idim"
    and "idim < BMM_NDIM \<Longrightarrow>
      cache_ijcell (dem_cache (build_prepare dem)) ipart idim
        = ijcell_of (build_prepare dem) ipart idim"
    and "cache_icell (dem_cache (build_prepare dem)) ipart
        = bmm_unhcd 64 (cache_ijcell (dem_cache (build_prepare dem)) ipart) BMM_NDIM
            (opts_cache_ncell (dem_opts dem))"
proof -
  let ?n = "part_n (dem_part dem)"
  define s1 where "s1 = fold (\<lambda>ipart dem. bmm_dem_cache_j dem ipart) [0 ..< ?n] dem"
  define s2 where "s2 = fold (\<lambda>ipart dem. bmm_dem_cache_x dem ipart) [0 ..< ?n] s1"
  define s3 where "s3 = fold (\<lambda>ipart dem. bmm_dem_cache_ijcell dem ipart) [0 ..< ?n] s2"
  define s4 where "s4 = fold (\<lambda>ipart dem. bmm_dem_cache_icell dem ipart) [0 ..< ?n] s3"
  have p1: "dem_part s1 = dem_part dem" and o1: "dem_opts s1 = dem_opts dem"
    unfolding s1_def by (simp_all add: fold_proj cache_steps_frame)
  have p2: "dem_part s2 = dem_part dem" and o2: "dem_opts s2 = dem_opts dem"
    unfolding s2_def by (simp_all add: fold_proj cache_steps_frame p1 o1)
  have p3: "dem_part s3 = dem_part dem" and o3: "dem_opts s3 = dem_opts dem"
    unfolding s3_def by (simp_all add: fold_proj cache_steps_frame p2 o2)
  have o4: "dem_opts s4 = dem_opts dem"
    unfolding s4_def by (simp add: fold_proj cache_steps_frame o3)
  have prep: "build_prepare dem = bmm_dem_cache_clrparts s4"
    unfolding build_prepare_def Let_def s4_def s3_def s2_def s1_def
    by (simp add: fold_proj cache_steps_frame)
  have x2: "cache_x (dem_cache s2) ipart = copy_upto BMM_NDIM (cache_x (dem_cache s1) ipart)
      (part_x (dem_part dem) ipart)"
    unfolding s2_def prepare_cache_x using assms by (simp add: p1)
  have x3: "cache_x (dem_cache s3) = cache_x (dem_cache s2)"
    unfolding s3_def
    by (rule fold_proj [where g = "\<lambda>s. cache_x (dem_cache s)"])
      (simp add: bmm_dem_cache_ijcell_fields)
  have x4: "cache_x (dem_cache s4) = cache_x (dem_cache s3)"
    unfolding s4_def
    by (rule fold_proj [where g = "\<lambda>s. cache_x (dem_cache s)"])
      (simp add: bmm_dem_cache_icell_def)
  have i3: "cache_ijcell (dem_cache s3) ipart = (\<lambda>idim. if idim < BMM_NDIM
      then ijcell_of s2 ipart idim else cache_ijcell (dem_cache s2) ipart idim)"
    unfolding s3_def prepare_cache_ijcell using assms by simp
  have i4: "cache_ijcell (dem_cache s4) = cache_ijcell (dem_cache s3)"
    unfolding s4_def
    by (rule fold_proj [where g = "\<lambda>s. cache_ijcell (dem_cache s)"])
      (simp add: bmm_dem_cache_icell_def)
  have c4: "cache_icell (dem_cache s4) ipart
      = bmm_unhcd 64 (cache_ijcell (dem_cache s3) ipart) BMM_NDIM (opts_cache_ncell (dem_opts dem))"
    unfolding s4_def prepare_cache_icell using assms by (simp add: o3)
  show "cache_x (dem_cache (build_prepare dem)) ipart idim = part_x (dem_part dem) ipart idim"
    if "idim < BMM_NDIM"
    using that by (simp add: prep bmm_dem_cache_clrparts_def x4 x3 x2 copy_upto_apply)
  have "ijcell_of (build_prepare dem) ipart idim = ijcell_of s2 ipart idim"
    by (rule ijcell_of_cong) (simp_all add: prep bmm_dem_cache_clrparts_def x4 x3 o4 o2)
  then show "cache_ijcell (dem_cache (build_prepare dem)) ipart idim
        = ijcell_of (build_prepare dem) ipart idim" if "idim < BMM_NDIM"
    using that by (simp add: prep bmm_dem_cache_clrparts_def i4 i3)
  show "cache_icell (dem_cache (build_prepare dem)) ipart
        = bmm_unhcd 64 (cache_ijcell (dem_cache (build_prepare dem)) ipart) BMM_NDIM
            (opts_cache_ncell (dem_opts dem))"
    by (simp add: prep bmm_dem_cache_clrparts_def i4 c4)
qed

lemma bmm_dem_cache_build_cache:
  assumes "bmm_dem_cache_build NGROUP dem = (True, dem')"
    and "ipart < part_n (dem_part dem)"
  shows "idim < BMM_NDIM \<Longrightarrow>
      cache_x (dem_cache dem') ipart idim = part_x (dem_part dem) ipart idim"
    and "idim < BMM_NDIM \<Longrightarrow>
      cache_ijcell (dem_cache dem') ipart idim = ijcell_of dem' ipart idim"
    and "cache_icell (dem_cache dem') ipart
        = bmm_unhcd 64 (cache_ijcell (dem_cache dem') ipart) BMM_NDIM
            (opts_cache_ncell (dem_opts dem))"
proof -
  note r = bmm_dem_cache_build_result [OF assms(1)]
  note c = build_prepare_cache [OF assms(2)]
  show "cache_x (dem_cache dem') ipart idim = part_x (dem_part dem) ipart idim"
    if "idim < BMM_NDIM"
    using that by (simp add: r(6) c(1))
  have "ijcell_of dem' ipart idim = ijcell_of (build_prepare dem) ipart idim"
    by (rule ijcell_of_cong) (simp_all add: r(2) r(6) build_prepare_frame)
  then show "cache_ijcell (dem_cache dem') ipart idim = ijcell_of dem' ipart idim"
    if "idim < BMM_NDIM"
    using that by (simp add: r(7) c(2))
  show "cache_icell (dem_cache dem') ipart
        = bmm_unhcd 64 (cache_ijcell (dem_cache dem') ipart) BMM_NDIM
            (opts_cache_ncell (dem_opts dem))"
    by (simp add: r(7) r(8) c(3))
qed

text \<open>The rebuild succeeds when the lists are large enough.\<close>

lemma addpart_loop_success:
  assumes "\<And>icell. length (P icell) + k \<le> NGROUP"
  shows "loop_while (\<lambda>ipart dem. bmm_dem_cache_addpart NGROUP dem ipart) [0 ..< k] (set_part dem P)
     = (True, set_part dem
         (\<lambda>icell. P icell @ filter (\<lambda>jpart. cache_icell (dem_cache dem) jpart = icell) [0 ..< k]))"
  using assms
proof (induction k)
  case 0
  then show ?case by simp
next
  case (Suc k)
  let ?body = "\<lambda>ipart dem. bmm_dem_cache_addpart NGROUP dem ipart"
  let ?Q = "\<lambda>icell. P icell @ filter (\<lambda>jpart. cache_icell (dem_cache dem) jpart = icell) [0 ..< k]"
  have "length (P icell) + k \<le> NGROUP" for icell
    using Suc.prems [of icell] by simp
  then have r: "loop_while ?body [0 ..< k] (set_part dem P) = (True, set_part dem ?Q)"
    by (rule Suc.IH)
  have room: "length (?Q icell) < NGROUP" for icell
  proof -
    have "length (filter (\<lambda>jpart. cache_icell (dem_cache dem) jpart = icell) [0 ..< k])
        \<le> length [0 ..< k]"
      by (rule length_filter_le)
    then have "length (?Q icell) \<le> length (P icell) + k" by simp
    with Suc.prems [of icell] show ?thesis by linarith
  qed
  have e: "?Q(cache_icell (dem_cache dem) k := ?Q (cache_icell (dem_cache dem) k) @ [k])
      = (\<lambda>icell. P icell @
          filter (\<lambda>jpart. cache_icell (dem_cache dem) jpart = icell) [0 ..< Suc k])"
    by (auto simp: fun_eq_iff)
  have "loop_while ?body [0 ..< Suc k] (set_part dem P) = ?body k (set_part dem ?Q)"
    using r by (simp add: loop_while_snoc)
  also have "\<dots> = (True, set_part dem
      (?Q(cache_icell (dem_cache dem) k := ?Q (cache_icell (dem_cache dem) k) @ [k])))"
    using room [of "cache_icell (dem_cache dem) k"]
    unfolding bmm_dem_cache_addpart_set_part by (simp only: not_le [symmetric] if_False)
  finally show ?case unfolding e .
qed

lemma addfrom_group_success:
  "length (X ipart) + length js \<le> neigh_capacity NGROUP \<Longrightarrow>
     fst (loop_while (addfrom_candidate NGROUP ipart) js (set_neigh dem X))"
proof (induction js arbitrary: X)
  case Nil
  then show ?case by simp
next
  case (Cons jpart js)
  show ?case
  proof (cases "bmm_dem_cache_eligible dem ipart jpart")
    case True
    from Cons.prems have room: "\<not> length (X ipart) \<ge> neigh_capacity NGROUP" by simp
    have step: "addfrom_candidate NGROUP ipart jpart (set_neigh dem X)
        = (True, set_neigh dem (X(ipart := X ipart @ [jpart])))"
      unfolding addfrom_candidate_set_neigh using True room by (simp only: if_True if_False)
    have "length ((X(ipart := X ipart @ [jpart])) ipart) + length js \<le> neigh_capacity NGROUP"
      using Cons.prems by simp
    from Cons.IH [where X = "X(ipart := X ipart @ [jpart])", OF this] show ?thesis
      unfolding loop_while.simps step by (simp only: prod.case bool.case)
  next
    case False
    have step: "addfrom_candidate NGROUP ipart jpart (set_neigh dem X) = (True, set_neigh dem X)"
      unfolding addfrom_candidate_set_neigh using False by (simp only: if_False)
    have "length (X ipart) + length js \<le> neigh_capacity NGROUP"
      using Cons.prems by simp
    from Cons.IH [where X = X, OF this] show ?thesis
      unfolding loop_while.simps step by (simp only: prod.case bool.case)
  qed
qed

lemma addfrom_cells_success:
  "length (X ipart) + length (concat (map (\<lambda>ineigh. cache_part (dem_cache dem)
        (bmm_neigh_icpij (cache_ijcell (dem_cache dem) ipart) ineigh BMM_NDIM
           (opts_cache_ncell (dem_opts dem)) (opts_box_per (dem_opts dem)) msk)) ns))
     \<le> neigh_capacity NGROUP \<Longrightarrow>
   fst (loop_while (\<lambda>ineigh dem.
       let icell = bmm_neigh_icpij (cache_ijcell (dem_cache dem) ipart) ineigh BMM_NDIM
             (opts_cache_ncell (dem_opts dem)) (opts_box_per (dem_opts dem)) msk
       in loop_while (addfrom_candidate NGROUP ipart) (cache_part (dem_cache dem) icell) dem)
     ns (set_neigh dem X))"
proof (induction ns arbitrary: X)
  case Nil
  then show ?case by simp
next
  case (Cons ineigh ns)
  let ?js = "cache_part (dem_cache dem)
      (bmm_neigh_icpij (cache_ijcell (dem_cache dem) ipart) ineigh BMM_NDIM
         (opts_cache_ncell (dem_opts dem)) (opts_box_per (dem_opts dem)) msk)"
  let ?rest = "concat (map (\<lambda>ineigh. cache_part (dem_cache dem)
        (bmm_neigh_icpij (cache_ijcell (dem_cache dem) ipart) ineigh BMM_NDIM
           (opts_cache_ncell (dem_opts dem)) (opts_box_per (dem_opts dem)) msk)) ns)"
  let ?X = "X(ipart := X ipart @ filter (bmm_dem_cache_eligible dem ipart) ?js)"
  from Cons.prems have bound: "length (X ipart) + length ?js + length ?rest \<le> neigh_capacity NGROUP"
    by simp
  then have "length (X ipart) + length ?js \<le> neigh_capacity NGROUP" by simp
  then have "fst (loop_while (addfrom_candidate NGROUP ipart) ?js (set_neigh dem X))"
    by (rule addfrom_group_success)
  then obtain dem1 where r: "loop_while (addfrom_candidate NGROUP ipart) ?js (set_neigh dem X)
      = (True, dem1)"
    by (cases "loop_while (addfrom_candidate NGROUP ipart) ?js (set_neigh dem X)") simp
  have dem1: "dem1 = set_neigh dem ?X"
    using r by (rule addfrom_group_result)
  have flen: "length (filter (bmm_dem_cache_eligible dem ipart) ?js) \<le> length ?js"
    by (rule length_filter_le)
  have "length (?X ipart) = length (X ipart) + length (filter (bmm_dem_cache_eligible dem ipart) ?js)"
    by simp
  with bound flen have "length (?X ipart) + length ?rest \<le> neigh_capacity NGROUP"
    by linarith
  note ih = Cons.IH [where X = ?X, OF this]
  let ?B = "\<lambda>ineigh dem.
       let icell = bmm_neigh_icpij (cache_ijcell (dem_cache dem) ipart) ineigh BMM_NDIM
             (opts_cache_ncell (dem_opts dem)) (opts_box_per (dem_opts dem)) msk
       in loop_while (addfrom_candidate NGROUP ipart) (cache_part (dem_cache dem) icell) dem"
  have "loop_while ?B (ineigh # ns) (set_neigh dem X) = loop_while ?B ns dem1"
    using r by (simp add: Let_def)
  then show ?case
    unfolding dem1 using ih by (simp only:)
qed

lemma bmm_dem_cache_addfrom_success:
  assumes "length (X ipart) + length (concat (map (cache_part (dem_cache dem))
      (neigh_cells dem ipart))) \<le> neigh_capacity NGROUP"
  shows "fst (bmm_dem_cache_addfrom NGROUP (set_neigh dem X) ipart BMM_NEIGH_MASK_UPPERH)"
proof -
  from assms have "length (X ipart) + length (concat (map (\<lambda>ineigh. cache_part (dem_cache dem)
        (bmm_neigh_icpij (cache_ijcell (dem_cache dem) ipart) ineigh BMM_NDIM
           (opts_cache_ncell (dem_opts dem)) (opts_box_per (dem_opts dem)) BMM_NEIGH_MASK_UPPERH))
        [0 ..< bmm_neigh_ncpij (cache_ijcell (dem_cache dem) ipart) BMM_NDIM
            (opts_cache_ncell (dem_opts dem)) (opts_box_per (dem_opts dem)) BMM_NEIGH_MASK_UPPERH]))
     \<le> neigh_capacity NGROUP"
    by (simp add: neigh_cells_def map_map comp_def)
  from addfrom_cells_success [where X = X and ipart = ipart and dem = dem
      and msk = BMM_NEIGH_MASK_UPPERH, OF this] show ?thesis
    by (simp add: bmm_dem_cache_addfrom_def Let_def)
qed

lemma addfrom_loop_success:
  assumes "\<And>ipart. ipart < k \<Longrightarrow> length (X ipart) + length (concat (map (cache_part (dem_cache dem))
      (neigh_cells dem ipart))) \<le> neigh_capacity NGROUP"
  shows "fst (loop_while (\<lambda>ipart dem. bmm_dem_cache_addfrom NGROUP dem ipart BMM_NEIGH_MASK_UPPERH)
     [0 ..< k] (set_neigh dem X))"
  using assms
proof (induction k)
  case 0
  then show ?case by simp
next
  case (Suc k)
  let ?body = "\<lambda>ipart dem. bmm_dem_cache_addfrom NGROUP dem ipart BMM_NEIGH_MASK_UPPERH"
  let ?Y = "\<lambda>ipart. if ipart < k then X ipart @ neigh_found dem ipart else X ipart"
  have "fst (loop_while ?body [0 ..< k] (set_neigh dem X))"
    by (rule Suc.IH) (simp add: Suc.prems)
  then obtain dem1 where r: "loop_while ?body [0 ..< k] (set_neigh dem X) = (True, dem1)"
    by (cases "loop_while ?body [0 ..< k] (set_neigh dem X)") simp
  have dem1: "dem1 = set_neigh dem ?Y"
    using r by (rule addfrom_loop_result)
  have "length (?Y k) + length (concat (map (cache_part (dem_cache dem))
      (neigh_cells dem k))) \<le> neigh_capacity NGROUP"
    using Suc.prems [of k] by simp
  note last = bmm_dem_cache_addfrom_success [where X = ?Y, OF this]
  have "loop_while ?body [0 ..< Suc k] (set_neigh dem X) = ?body k dem1"
    using r by (simp add: loop_while_snoc)
  then show ?case
    unfolding dem1 using last by (simp only:)
qed

lemma length_concat_le:
  "(\<And>xs. xs \<in> set xss \<Longrightarrow> length xs \<le> n) \<Longrightarrow> length (concat xss) \<le> length xss * n"
proof (induction xss)
  case Nil
  then show ?case by simp
next
  case (Cons xs xss)
  have "length xs \<le> n" by (rule Cons.prems) simp
  moreover have "length (concat xss) \<le> length xss * n"
    by (rule Cons.IH) (simp add: Cons.prems)
  ultimately show ?case by simp
qed

lemma mask_offsets_upperh:
  "mask_offsets BMM_NEIGH_MASK_UPPERH BMM_NDIM = [[0, 0], [0, 1], [1, - 1], [1, 0], [1, 1]]"
  by (simp add: mask_offsets_def BMM_NDIM_def numeral_2_eq_2 upper_half_def)

lemma length_neigh_cells: "length (neigh_cells dem ipart) \<le> 5"
proof -
  have "length (List.map_filter f xs) \<le> length xs" for f :: "int list \<Rightarrow> (nat \<Rightarrow> nat) option" and xs
    by (simp add: List.map_filter_def)
  then have "length (neigh_cpij ij BMM_NDIM nper per BMM_NEIGH_MASK_UPPERH)
      \<le> length (mask_offsets BMM_NEIGH_MASK_UPPERH BMM_NDIM)" for ij nper per
    unfolding neigh_cpij_def .
  also have "length (mask_offsets BMM_NEIGH_MASK_UPPERH BMM_NDIM) = 5"
    by (simp add: mask_offsets_upperh)
  finally show ?thesis
    by (simp add: neigh_cells_def bmm_neigh_ncpij_def)
qed

lemma bmm_dem_cache_build_success:
  assumes "5 * part_n (dem_part dem) \<le> 4 * NGROUP"
  shows "fst (bmm_dem_cache_build NGROUP dem)"
proof -
  let ?n = "part_n (dem_part dem)"
  let ?s0 = "build_prepare dem"
  let ?P = "\<lambda>icell. filter (\<lambda>jpart. cache_icell (dem_cache ?s0) jpart = icell) [0 ..< ?n]"
  let ?s1 = "set_part ?s0 ?P"
  have "\<And>icell. length ([] :: nat list) + ?n \<le> NGROUP" using assms by simp
  from addpart_loop_success [where P = "\<lambda>icell. []" and dem = ?s0, OF this]
  have r1: "loop_while (\<lambda>ipart dem. bmm_dem_cache_addpart NGROUP dem ipart) [0 ..< ?n] ?s0
      = (True, ?s1)"
    using build_prepare_set_part [of dem] by simp
  have n1: "part_n (dem_part ?s1) = ?n" by (simp add: build_prepare_frame)
  have cap: "neigh_capacity NGROUP = 4 * NGROUP"
    by (simp add: neigh_capacity_def BMM_NDIM_def)
  have len: "length (concat (map (cache_part (dem_cache ?s1)) (neigh_cells ?s1 ipart)))
      \<le> neigh_capacity NGROUP" for ipart
  proof -
    have "length xs \<le> ?n" if "xs \<in> set (map (cache_part (dem_cache ?s1)) (neigh_cells ?s1 ipart))"
      for xs
    proof -
      from that obtain icell where "xs = ?P icell" by auto
      then show ?thesis using length_filter_le [of _ "[0 ..< ?n]"] by simp
    qed
    then have "length (concat (map (cache_part (dem_cache ?s1)) (neigh_cells ?s1 ipart)))
        \<le> length (map (cache_part (dem_cache ?s1)) (neigh_cells ?s1 ipart)) * ?n"
      by (rule length_concat_le)
    also have "\<dots> \<le> 5 * ?n"
      using length_neigh_cells [of ?s1 ipart] by simp
    finally show ?thesis using assms unfolding cap by simp
  qed
  have "fst (loop_while (\<lambda>ipart dem. bmm_dem_cache_addfrom NGROUP dem ipart BMM_NEIGH_MASK_UPPERH)
     [0 ..< ?n] (set_neigh ?s1 (\<lambda>ipart. if ipart < ?n then []
                     else cache_neigh (dem_cache ?s1) ipart)))"
  proof (rule addfrom_loop_success)
    fix ipart
    assume "ipart < ?n"
    then show "length (if ipart < ?n then [] else cache_neigh (dem_cache ?s1) ipart) +
        length (concat (map (cache_part (dem_cache ?s1)) (neigh_cells ?s1 ipart)))
        \<le> neigh_capacity NGROUP"
      using len [of ipart] by simp
  qed
  then obtain s3 where "loop_while
      (\<lambda>ipart dem. bmm_dem_cache_addfrom NGROUP dem ipart BMM_NEIGH_MASK_UPPERH)
      [0 ..< ?n] (set_neigh ?s1 (\<lambda>ipart. if ipart < ?n then []
                     else cache_neigh (dem_cache ?s1) ipart)) = (True, s3)"
    by (cases "loop_while
      (\<lambda>ipart dem. bmm_dem_cache_addfrom NGROUP dem ipart BMM_NEIGH_MASK_UPPERH)
      [0 ..< ?n] (set_neigh ?s1 (\<lambda>ipart. if ipart < ?n then []
                     else cache_neigh (dem_cache ?s1) ipart))") simp
  then show ?thesis
    unfolding bmm_dem_cache_build_unfold r1
    by (simp add: clrneighs_result build_prepare_frame)
qed

lemma dem_near_fields:
  "part_n (dem_part dem_near) = 2"
  "part_x (dem_part dem_near) = (\<lambda>ipart idim. if ipart = 0 \<and> idim = 0 then 1 / 2 else 0)"
  "dem_opts dem_near = bmm_dem_opts_def"
  by (auto simp: dem_near_def bmm_dem_addpart_def bmm_dem_def_def Let_def size_add_def
      fill_ndim_apply fun_eq_iff)

lemma dem_near_build: "bmm_dem_cache_build 8 dem_near = (True, dem_near_built)"
proof -
  have "fst (bmm_dem_cache_build 8 dem_near)"
    by (rule bmm_dem_cache_build_success) (simp add: dem_near_fields)
  then show ?thesis
    unfolding dem_near_built_def by (cases "bmm_dem_cache_build 8 dem_near") simp
qed

lemma dem_near_built_frame:
  "part_n (dem_part dem_near_built) = 2"
  "dem_opts dem_near_built = bmm_dem_opts_def"
  "cache_part (dem_cache dem_near_built) =
     (\<lambda>icell. filter (\<lambda>jpart. cache_icell (dem_cache dem_near_built) jpart = icell) [0, Suc 0])"
  "cache_neigh (dem_cache dem_near_built) 0 = neigh_found dem_near_built 0"
  "cache_neigh (dem_cache dem_near_built) (Suc 0) = neigh_found dem_near_built (Suc 0)"
  using bmm_dem_cache_build_result [OF dem_near_build]
  by (simp_all add: dem_near_fields upt_2)

lemma dem_near_built_x:
  "cache_x (dem_cache dem_near_built) 0 0 = 1 / 2"
  "cache_x (dem_cache dem_near_built) 0 (Suc 0) = 0"
  "cache_x (dem_cache dem_near_built) (Suc 0) 0 = 0"
  "cache_x (dem_cache dem_near_built) (Suc 0) (Suc 0) = 0"
  using bmm_dem_cache_build_cache(1) [OF dem_near_build, of 0 0]
    bmm_dem_cache_build_cache(1) [OF dem_near_build, of 0 "Suc 0"]
    bmm_dem_cache_build_cache(1) [OF dem_near_build, of "Suc 0" 0]
    bmm_dem_cache_build_cache(1) [OF dem_near_build, of "Suc 0" "Suc 0"]
  by (simp_all add: dem_near_fields BMM_NDIM_def)

lemma size_sub_5_1: "size_sub 5 (Suc 0) = 4"
  using size_sub_small [of 1 5] by simp

lemma dem_near_built_ijcell:
  "cache_ijcell (dem_cache dem_near_built) 0 0 = 2"
  "cache_ijcell (dem_cache dem_near_built) 0 (Suc 0) = 1"
  "cache_ijcell (dem_cache dem_near_built) (Suc 0) 0 = 1"
  "cache_ijcell (dem_cache dem_near_built) (Suc 0) (Suc 0) = 1"
  using bmm_dem_cache_build_cache(2) [OF dem_near_build, of 0 0]
    bmm_dem_cache_build_cache(2) [OF dem_near_build, of 0 "Suc 0"]
    bmm_dem_cache_build_cache(2) [OF dem_near_build, of "Suc 0" 0]
    bmm_dem_cache_build_cache(2) [OF dem_near_build, of "Suc 0" "Suc 0"]
  by (simp_all add: dem_near_fields BMM_NDIM_def ijcell_of_def dem_near_built_frame
      dem_near_built_x bmm_dem_opts_def_def size_sub_5_1 bmm_fp_lerp_def Let_def
      fp_round_values)

lemma unhcd_2:
  "bmm_unhcd 64 ij BMM_NDIM nper
     = (((0 * nper 0) mod 2 ^ 64 + ij 0) mod 2 ^ 64 * nper (Suc 0) mod 2 ^ 64 + ij (Suc 0)) mod 2 ^ 64"
  by (simp add: bmm_unhcd_def BMM_NDIM_def upt_2)

lemma dem_near_built_icell:
  "cache_icell (dem_cache dem_near_built) 0 = 11"
  "cache_icell (dem_cache dem_near_built) (Suc 0) = 6"
  using bmm_dem_cache_build_cache(3) [OF dem_near_build, of 0]
    bmm_dem_cache_build_cache(3) [OF dem_near_build, of "Suc 0"]
  by (simp_all add: dem_near_fields unhcd_2 dem_near_built_ijcell bmm_dem_opts_def_def)

lemma neigh_cells_default:
  assumes "dem_opts dem = bmm_dem_opts_def"
    and "cache_ijcell (dem_cache dem) ipart 0 = a" and "cache_ijcell (dem_cache dem) ipart (Suc 0) = b"
    and "1 \<le> a" and "a \<le> 3" and "1 \<le> b" and "b \<le> 3"
  shows "neigh_cells dem ipart =
     [a * 5 + b, a * 5 + (b + 1), (a + 1) * 5 + (b - 1), (a + 1) * 5 + b, (a + 1) * 5 + (b + 1)]"
proof -
  let ?ij = "cache_ijcell (dem_cache dem) ipart"
  have shift: "shift_cell ?ij BMM_NDIM (\<lambda>_. 5) (\<lambda>_. False) [p, q] =
      Some (\<lambda>idim. if idim < BMM_NDIM then nat ((int (?ij idim) + [p, q] ! idim) mod 5) else ?ij idim)"
    if "p \<in> {0, 1}" and "q \<in> {- 1, 0, 1}" for p q :: int
    using that assms(2-7)
    by (auto simp: shift_cell_def BMM_NDIM_def upt_2)
  have cp: "neigh_cpij ?ij BMM_NDIM (\<lambda>_. 5) (\<lambda>_. False) BMM_NEIGH_MASK_UPPERH =
      map (\<lambda>offs idim. if idim < BMM_NDIM then nat ((int (?ij idim) + offs ! idim) mod 5) else ?ij idim)
        [[0, 0], [0, 1], [1, - 1], [1, 0], [1, 1]]"
    unfolding neigh_cpij_def mask_offsets_upperh
    by (simp add: List.map_filter_def shift)
  have val: "bmm_unhcd 64 (\<lambda>idim. if idim < BMM_NDIM then nat ((int (?ij idim) + [p, q] ! idim) mod 5)
      else ?ij idim) BMM_NDIM (\<lambda>_. 5) = nat (int a + p) * 5 + nat (int b + q)"
    if "p \<in> {0, 1}" and "q \<in> {- 1, 0, 1}" for p q :: int
  proof -
    have "nat ((int a + p) mod 5) = nat (int a + p)" "nat ((int b + q) mod 5) = nat (int b + q)"
      using that assms(4-7) by auto
    moreover have "nat (int a + p) \<le> 4" "nat (int b + q) \<le> 4"
      using that assms(4-7) by auto
    then have "nat (int a + p) * 5 + nat (int b + q) < 2 ^ 64" "nat (int a + p) < 2 ^ 64"
      by simp_all
    ultimately show ?thesis
      unfolding unhcd_2 by (simp add: assms(2,3) BMM_NDIM_def)
  qed
  show ?thesis
    unfolding neigh_cells_def bmm_neigh_ncpij_def bmm_neigh_icpij_def assms(1)
    using assms(4-7)
    by (simp add: bmm_dem_opts_def_def cp upt_rec [of 0] upt_rec [of "Suc _"] val nat_add_distrib
        del: upt_Suc)
qed

lemma dem_near_built_cells:
  "neigh_cells dem_near_built 0 = [11, 12, 15, 16, 17]"
  "neigh_cells dem_near_built (Suc 0) = [6, 7, 10, 11, 12]"
  using neigh_cells_default [OF dem_near_built_frame(2) dem_near_built_ijcell(1,2)]
    neigh_cells_default [OF dem_near_built_frame(2) dem_near_built_ijcell(3,4)]
  by simp_all

lemma dem_near_built_eligible:
  "\<not> bmm_dem_cache_eligible dem_near_built 0 0"
  "bmm_dem_cache_eligible dem_near_built 0 (Suc 0)"
  "bmm_dem_cache_eligible dem_near_built (Suc 0) 0"
  "\<not> bmm_dem_cache_eligible dem_near_built (Suc 0) (Suc 0)"
  by (simp_all add: bmm_dem_cache_eligible_def dem_near_built_icell dem_near_built_frame
      bmm_dem_opts_def_def bmm_geom2d_cpdist2_def bmm_geom2d_norm2_def bmm_geom2d_dot_def
      bmm_geom2d_cpdiff_def bmm_fp_sq_def dem_near_built_x)

lemma dem_near_built_neigh:
  "cache_neigh (dem_cache dem_near_built) 0 = []"
  "cache_neigh (dem_cache dem_near_built) (Suc 0) = [0]"
  by (simp_all add: dem_near_built_frame(4,5) neigh_found_def dem_near_built_cells
      dem_near_built_frame(3) dem_near_built_icell dem_near_built_eligible)

lemma dem_far_fields:
  "part_n (dem_part dem_far) = 2"
  "part_x (dem_part dem_far) = (\<lambda>ipart idim. if ipart = Suc 0 \<and> idim = 0 then 3 / 4 else 0)"
  "dem_opts dem_far = bmm_dem_opts_def"
  by (auto simp: dem_far_def bmm_dem_addpart_def bmm_dem_def_def Let_def size_add_def
      fill_ndim_apply fun_eq_iff)

lemma dem_far_build: "bmm_dem_cache_build 8 dem_far = (True, dem_far_built)"
proof -
  have "fst (bmm_dem_cache_build 8 dem_far)"
    by (rule bmm_dem_cache_build_success) (simp add: dem_far_fields)
  then show ?thesis
    unfolding dem_far_built_def by (cases "bmm_dem_cache_build 8 dem_far") simp
qed

lemma dem_far_built_frame:
  "part_n (dem_part dem_far_built) = 2"
  "dem_opts dem_far_built = bmm_dem_opts_def"
  "cache_part (dem_cache dem_far_built) =
     (\<lambda>icell. filter (\<lambda>jpart. cache_icell (dem_cache dem_far_built) jpart = icell) [0, Suc 0])"
  "cache_neigh (dem_cache dem_far_built) 0 = neigh_found dem_far_built 0"
  "cache_neigh (dem_cache dem_far_built) (Suc 0) = neigh_found dem_far_built (Suc 0)"
  using bmm_dem_cache_build_result [OF dem_far_build]
  by (simp_all add: dem_far_fields upt_2)

lemma dem_far_built_x:
  "cache_x (dem_cache dem_far_built) 0 0 = 0"
  "cache_x (dem_cache dem_far_built) 0 (Suc 0) = 0"
  "cache_x (dem_cache dem_far_built) (Suc 0) 0 = 3 / 4"
  "cache_x (dem_cache dem_far_built) (Suc 0) (Suc 0) = 0"
  using bmm_dem_cache_build_cache(1) [OF dem_far_build, of 0 0]
    bmm_dem_cache_build_cache(1) [OF dem_far_build, of 0 "Suc 0"]
    bmm_dem_cache_build_cache(1) [OF dem_far_build, of "Suc 0" 0]
    bmm_dem_cache_build_cache(1) [OF dem_far_build, of "Suc 0" "Suc 0"]
  by (simp_all add: dem_far_fields BMM_NDIM_def)

lemma dem_far_built_ijcell:
  "cache_ijcell (dem_cache dem_far_built) 0 0 = 1"
  "cache_ijcell (dem_cache dem_far_built) 0 (Suc 0) = 1"
  "cache_ijcell (dem_cache dem_far_built) (Suc 0) 0 = 3"
  "cache_ijcell (dem_cache dem_far_built) (Suc 0) (Suc 0) = 1"
  using bmm_dem_cache_build_cache(2) [OF dem_far_build, of 0 0]
    bmm_dem_cache_build_cache(2) [OF dem_far_build, of 0 "Suc 0"]
    bmm_dem_cache_build_cache(2) [OF dem_far_build, of "Suc 0" 0]
    bmm_dem_cache_build_cache(2) [OF dem_far_build, of "Suc 0" "Suc 0"]
  by (simp_all add: dem_far_fields BMM_NDIM_def ijcell_of_def dem_far_built_frame
      dem_far_built_x bmm_dem_opts_def_def size_sub_5_1 bmm_fp_lerp_def Let_def
      fp_round_values)

lemma dem_far_built_icell:
  "cache_icell (dem_cache dem_far_built) 0 = 6"
  "cache_icell (dem_cache dem_far_built) (Suc 0) = 16"
  using bmm_dem_cache_build_cache(3) [OF dem_far_build, of 0]
    bmm_dem_cache_build_cache(3) [OF dem_far_build, of "Suc 0"]
  by (simp_all add: dem_far_fields unhcd_2 dem_far_built_ijcell bmm_dem_opts_def_def)

lemma dem_far_built_cells:
  "neigh_cells dem_far_built 0 = [6, 7, 10, 11, 12]"
  "neigh_cells dem_far_built (Suc 0) = [16, 17, 20, 21, 22]"
  using neigh_cells_default [OF dem_far_built_frame(2) dem_far_built_ijcell(1,2)]
    neigh_cells_default [OF dem_far_built_frame(2) dem_far_built_ijcell(3,4)]
  by simp_all

lemma dem_far_built_eligible:
  "\<not> bmm_dem_cache_eligible dem_far_built 0 0"
  "\<not> bmm_dem_cache_eligible dem_far_built (Suc 0) (Suc 0)"
  by (simp_all add: bmm_dem_cache_eligible_def)

lemma dem_far_built_neigh:
  "cache_neigh (dem_cache dem_far_built) 0 = []"
  "cache_neigh (dem_cache dem_far_built) (Suc 0) = []"
  by (simp_all add: dem_far_built_frame(4,5) neigh_found_def dem_far_built_cells
      dem_far_built_frame(3) dem_far_built_icell dem_far_built_eligible)

lemma dem_far_built_dist:
  "bmm_geom2d_cpdist2 (cache_x (dem_cache dem_far_built) 0) (cache_x (dem_cache dem_far_built) (Suc 0))
     (opts_box_x (dem_opts dem_far_built)) (opts_box_per (dem_opts dem_far_built)) = 9 / 16"
  "bmm_fp_sq (opts_cache_rcutoff (dem_opts dem_far_built)) = 1"
  by (simp_all add: dem_far_built_frame bmm_dem_opts_def_def bmm_geom2d_cpdist2_def
      bmm_geom2d_norm2_def bmm_geom2d_dot_def bmm_geom2d_cpdiff_def bmm_fp_sq_def dem_far_built_x
      power2_eq_square [symmetric] power_divide)

lemma dem_near_built_dist:
  "bmm_geom2d_cpdist2 (cache_x (dem_cache dem_near_built) 0) (cache_x (dem_cache dem_near_built) (Suc 0))
     (opts_box_x (dem_opts dem_near_built)) (opts_box_per (dem_opts dem_near_built)) = 1 / 4"
  "bmm_fp_sq (opts_cache_rcutoff (dem_opts dem_near_built)) = 1"
  by (simp_all add: dem_near_built_frame bmm_dem_opts_def_def bmm_geom2d_cpdist2_def
      bmm_geom2d_norm2_def bmm_geom2d_dot_def bmm_geom2d_cpdiff_def bmm_fp_sq_def dem_near_built_x
      power2_eq_square [symmetric] power_divide)

text \<open>
  C1, amended. After a successful rebuild, for a particle \<open>ipart\<close> of the store, an index
  \<open>jpart\<close> is in \<^verbatim>\<open>neigh[ipart]\<close> as many times as the cell of \<open>jpart\<close> is among the cells of
  the upper-half neighborhood of the cell of \<open>ipart\<close>, when \<open>jpart\<close> is a particle of the
  store and \<^verbatim>\<open>bmm_dem_cache_eligible\<close> holds of the pair (the cached positions are within the
  cutoff, and \<open>ipart < jpart\<close> when both are in one cell); otherwise it is not in the list.
  So a pair within the cutoff is listed only when its cells are equal or adjacent, and then in
  the list of the particle whose cell has the other cell in its upper half, whichever index
  is lower.
\<close>

theorem bmm_dem_cache_build_neigh:
  assumes "bmm_dem_cache_build NGROUP dem = (True, dem')"
    and "ipart < part_n (dem_part dem)"
  shows "count_list (cache_neigh (dem_cache dem') ipart) jpart =
     (if jpart < part_n (dem_part dem) \<and> bmm_dem_cache_eligible dem' ipart jpart
      then count_list (neigh_cells dem' ipart) (cache_icell (dem_cache dem') jpart) else 0)"
proof -
  note r = bmm_dem_cache_build_result [OF assms(1)]
  from r(5) assms(2) have "cache_neigh (dem_cache dem') ipart = neigh_found dem' ipart"
    by simp
  then show ?thesis
    using neigh_found_count [OF r(4)] by simp
qed

theorem bmm_dem_cache_build_neigh_witness:
  "bmm_dem_cache_build 8 dem_near = (True, dem_near_built)
   \<and> (1::nat) < part_n (dem_part dem_near)
   \<and> count_list (cache_neigh (dem_cache dem_near_built) 1) 0 = 1"
  using bmm_dem_cache_build_neigh [OF dem_near_build, of 1 0]
  by (simp add: dem_near_build dem_near_fields dem_near_built_eligible dem_near_built_cells
      dem_near_built_icell)

text \<open>
  C1 as stated fails in both ways. In \<^term>\<open>dem_near\<close> particle 1 is in cell (1, 1) and particle
  0 in cell (2, 1), which is in the upper half of (1, 1): the pair, 1/2 apart with the cutoff
  1, is listed in \<^verbatim>\<open>neigh[1]\<close> and not in \<^verbatim>\<open>neigh[0]\<close>. In \<^term>\<open>dem_far\<close> the particles are
  in the cells (1, 1) and (3, 1), which are not adjacent: the pair, 3/4 apart, is in no list.
\<close>

theorem bmm_dem_cache_build_misses:
  "bmm_dem_cache_build 8 dem_near = (True, dem_near_built)
   \<and> bmm_geom2d_cpdist2 (cache_x (dem_cache dem_near_built) 0) (cache_x (dem_cache dem_near_built) 1)
       (opts_box_x (dem_opts dem_near_built)) (opts_box_per (dem_opts dem_near_built))
     \<le> bmm_fp_sq (opts_cache_rcutoff (dem_opts dem_near_built))
   \<and> cache_neigh (dem_cache dem_near_built) 0 = []
   \<and> cache_neigh (dem_cache dem_near_built) 1 = [0]
   \<and> bmm_dem_cache_build 8 dem_far = (True, dem_far_built)
   \<and> bmm_geom2d_cpdist2 (cache_x (dem_cache dem_far_built) 0) (cache_x (dem_cache dem_far_built) 1)
       (opts_box_x (dem_opts dem_far_built)) (opts_box_per (dem_opts dem_far_built))
     \<le> bmm_fp_sq (opts_cache_rcutoff (dem_opts dem_far_built))
   \<and> cache_neigh (dem_cache dem_far_built) 0 = []
   \<and> cache_neigh (dem_cache dem_far_built) 1 = []"
  by (simp add: dem_near_build dem_far_build dem_near_built_neigh dem_far_built_neigh
      dem_near_built_dist dem_far_built_dist)

end
